theory Spec2Isabelle
  imports Main "HOL-Library.Word" "HOL-Library.AList"
begin

section \<open>Promise: a single-assignment future\<close>

text \<open>
  The Go struct is
  \<^verbatim>\<open>type Promise[T any] struct { value T; ready chan struct{}; once sync.Once }\<close>.
  The channel \<open>ready\<close> carries no data: all that matters is whether it is the nil channel
  (the zero value of the struct), an open channel made by \<open>make\<close>, or a closed one.
  \<open>sync.Once\<close> is a flag that records that \<open>Do\<close> has run.
\<close>

datatype chan = ChNil | ChOpen | ChClosed

datatype 'a Promise = Promise (val: 'a) (ready: chan) (once: bool)

text \<open>
  \<open>close(ch)\<close>: closing the nil channel or a closed channel panics.
\<close>

datatype chan_panic = CloseOfNilChannel | CloseOfClosedChannel

fun close_chan :: "chan \<Rightarrow> chan_panic + chan" where
  "close_chan ChNil = Inl CloseOfNilChannel"
| "close_chan ChOpen = Inr ChClosed"
| "close_chan ChClosed = Inl CloseOfClosedChannel"

text \<open>
  \<^verbatim>\<open>func (p *Promise[T]) Get() T { <-p.ready; return p.value }\<close>
  A receive from a closed channel returns at once; a receive from an open or a nil channel
  blocks. \<open>None\<close> is "the call blocks in this state".
\<close>

definition Get :: "'a Promise \<Rightarrow> 'a option" where
  "Get p = (if ready p = ChClosed then Some (val p) else None)"

text \<open>
  \<open>p.once.Do(f)\<close>: \<open>f\<close> runs only when the flag is unset, and the flag is set when \<open>f\<close>
  returns or panics (\<open>Do\<close> sets it in a deferred call). The function \<open>f\<close> works on the
  promise and may panic; the result is the promise afterwards and the panic, if any.
\<close>

definition once_Do ::
  "'a Promise \<Rightarrow> ('a Promise \<Rightarrow> 'a Promise \<times> chan_panic option) \<Rightarrow> 'a Promise \<times> chan_panic option" where
  "once_Do p f =
     (if once p then (p, None)
      else (case f p of (p', e) \<Rightarrow> (Promise (val p') (ready p') True, e)))"

text \<open>\<open>close(p.ready)\<close>\<close>

definition close_ready :: "'a Promise \<Rightarrow> 'a Promise \<times> chan_panic option" where
  "close_ready p =
     (case close_chan (ready p) of
        Inr c \<Rightarrow> (Promise (val p) c (once p), None)
      | Inl e \<Rightarrow> (p, Some e))"

text \<open>
  \<^verbatim>\<open>func (p *Promise[T]) Resolve(value T) {
      p.once.Do(func() { p.value = value; close(p.ready) }) }\<close>
  (\<open>resolve\<close>, unexported, in the later version of the file; the body is the same.)
\<close>

definition Resolve :: "'a Promise \<Rightarrow> 'a \<Rightarrow> 'a Promise \<times> chan_panic option" where
  "Resolve p v = once_Do p (\<lambda>p. close_ready (Promise v (ready p) (once p)))"

text \<open>
  \<^verbatim>\<open>func NewPending[T any]() *Promise[T] { return &Promise[T]{ready: make(chan struct{})} }\<close>
  The parameter \<open>zero\<close> is the zero value of \<open>T\<close>.
\<close>

definition NewPending :: "'a \<Rightarrow> 'a Promise" where
  "NewPending zero = Promise zero ChOpen False"

text \<open>
  \<^verbatim>\<open>func New[T any](values ...T) *Promise[T] {
      p := &Promise[T]{ready: make(chan struct{})}
      if len(values) == 0 {
      } else if len(values) == 1 { p.value = values[0]
      } else { panic(fmt.Sprintf("New: expected at most one value, got %d values", len(values))) }
      p.once.Do(func() { close(p.ready) })
      return p }\<close>
  The channel is fresh, so \<open>close\<close> cannot panic here.
\<close>

datatype new_panic = NewExpectedAtMostOneValue nat

definition New :: "'a \<Rightarrow> 'a list \<Rightarrow> new_panic + 'a Promise" where
  "New zero values =
     (let p = Promise zero ChOpen False in
      if length values = 0 then Inr (fst (once_Do p close_ready))
      else if length values = 1 then
        Inr (fst (once_Do (Promise (values ! 0) (ready p) (once p)) close_ready))
      else Inl (NewExpectedAtMostOneValue (length values)))"

text \<open>
  The states the constructors and \<open>Resolve\<close> can produce: the channel is closed only
  by the function that \<open>once\<close> guards.
\<close>

definition guarded :: "'a Promise \<Rightarrow> bool" where
  "guarded p = (ready p = ChClosed \<longrightarrow> once p)"

section \<open>Go types and values, as package reflect shows them\<close>

text \<open>
  The resolver works on \<open>interface{}\<close> values and \<open>reflect.Type\<close> descriptors. The
  model covers the types the resolver distinguishes: three basic types, pointers, slices,
  arrays, maps, the empty interface, and the struct \<open>Promise[T]\<close> (a promise argument has
  type \<open>*Promise[T]\<close>, that is \<open>TPtr (TPromise T)\<close>). \<open>int\<close> is the 64-bit integer.
\<close>

datatype gtype = TBool | TInt | TString
  | TPtr gtype | TSlice gtype | TArray nat gtype | TMap gtype gtype
  | TInterface | TPromise gtype

datatype gkind = KInvalid | KBool | KInt | KString | KPtr | KSlice | KArray | KMap
  | KInterface | KStruct

fun Kind :: "gtype \<Rightarrow> gkind" where
  "Kind TBool = KBool"
| "Kind TInt = KInt"
| "Kind TString = KString"
| "Kind (TPtr t) = KPtr"
| "Kind (TSlice t) = KSlice"
| "Kind (TArray n t) = KArray"
| "Kind (TMap k v) = KMap"
| "Kind TInterface = KInterface"
| "Kind (TPromise t) = KStruct"

text \<open>
  \<open>Type.Elem()\<close>: the element type of a pointer, slice, array or map. It panics on any
  other kind; the resolver calls it only under a test of the kind, so the last equation is
  never used.
\<close>

fun Elem :: "gtype \<Rightarrow> gtype" where
  "Elem (TPtr t) = t"
| "Elem (TSlice t) = t"
| "Elem (TArray n t) = t"
| "Elem (TMap k v) = v"
| "Elem t = t"

type_synonym addr = nat

text \<open>
  A value is what an \<open>interface{}\<close> holds: \<open>VNil\<close> is the nil interface, every other
  value carries its dynamic type. A pointer is nil or an address in the heap. A slice or a
  map is nil (\<open>None\<close>) or holds its elements; a map is the list of its entries in the
  order in which \<open>MapKeys\<close> returns them for this run. An element stored under an
  interface element type is the dynamic value itself, \<open>VNil\<close> for a nil interface, as
  \<open>Value.Interface()\<close> returns it.
\<close>

datatype gval = VNil
  | VBool bool
  | VInt "64 word"
  | VString string
  | VPtr gtype "addr option"
  | VSlice gtype "gval list option"
  | VArray gtype "gval list"
  | VMap gtype gtype "(gval \<times> gval) list option"
  | VPromise gtype "gval Promise"

text \<open>
  \<open>reflect.TypeOf\<close>. The nil interface has no type (\<open>reflect.TypeOf(nil)\<close> is the nil
  \<open>Type\<close>); the package asks for the type of a value only after it has tested the value
  against nil, so the equation for \<open>VNil\<close> is never used.
\<close>

fun TypeOf :: "gval \<Rightarrow> gtype" where
  "TypeOf VNil = TInterface"
| "TypeOf (VBool b) = TBool"
| "TypeOf (VInt i) = TInt"
| "TypeOf (VString s) = TString"
| "TypeOf (VPtr t a) = TPtr t"
| "TypeOf (VSlice t xs) = TSlice t"
| "TypeOf (VArray t xs) = TArray (length xs) t"
| "TypeOf (VMap k v m) = TMap k v"
| "TypeOf (VPromise t p) = TPromise t"

text \<open>\<open>reflect.ValueOf(v).Kind()\<close>; the zero \<open>Value\<close> of the nil interface has kind Invalid.\<close>

definition KindOf :: "gval \<Rightarrow> gkind" where
  "KindOf v = (if v = VNil then KInvalid else Kind (TypeOf v))"

text \<open>\<open>reflect.Zero(t).Interface()\<close>: the zero value of a type.\<close>

fun Zero :: "gtype \<Rightarrow> gval" where
  "Zero TBool = VBool False"
| "Zero TInt = VInt 0"
| "Zero TString = VString []"
| "Zero (TPtr t) = VPtr t None"
| "Zero (TSlice t) = VSlice t None"
| "Zero (TArray n t) = VArray t (replicate n (Zero t))"
| "Zero (TMap k v) = VMap k v None"
| "Zero TInterface = VNil"
| "Zero (TPromise t) = VPromise t (Promise (Zero t) ChNil False)"

text \<open>
  \<open>V.AssignableTo(T)\<close>. Among the types of the model (predeclared types, unnamed
  composite types, one generic struct and the empty interface) a value of type \<open>V\<close> is
  assignable to \<open>T\<close> when the types are identical or \<open>T\<close> is the empty interface.
\<close>

definition AssignableTo :: "gtype \<Rightarrow> gtype \<Rightarrow> bool" where
  "AssignableTo V T = (V = T \<or> T = TInterface)"

text \<open>
  \<open>V.ConvertibleTo(T)\<close> and \<open>Value.Convert(T)\<close> belong to package reflect and depend on
  the Go release; the model takes them as parameters.
\<close>

record conv =
  ConvertibleTo :: "gtype \<Rightarrow> gtype \<Rightarrow> bool"
  Convert :: "gval \<Rightarrow> gtype \<Rightarrow> gval"

subsection \<open>The heap\<close>

text \<open>
  Pointers are addresses into a heap of cells; a cell holds the pointee. The cell of a
  \<open>*Promise[T]\<close> holds the promise struct. Allocation appends a cell, so a fresh address
  is the length of the heap.
\<close>

type_synonym heap = "gval list"

definition deref :: "heap \<Rightarrow> addr \<Rightarrow> gval option" where
  "deref h a = (if a < length h then Some (h ! a) else None)"

definition alloc :: "heap \<Rightarrow> gval \<Rightarrow> addr \<times> heap" where
  "alloc h v = (length h, h @ [v])"

subsection \<open>Outcomes\<close>

text \<open>The errors \<open>resolveValue\<close> returns (its \<open>fmt.Errorf\<close> calls, in source order).\<close>

datatype rerror =
    ExpectedPointer gtype gtype
  | ExpectedSlice gkind
  | SliceElement nat rerror
  | ExpectedArray gkind
  | ArrayLength nat nat
  | ArrayElement nat rerror
  | ExpectedMap gkind
  | MapKey gval rerror
  | MapValue gval rerror
  | CannotAssignOrConvert gtype gtype

datatype site = AtAsync | AtSync | AtExecuteFunction

text \<open>The panics of the package (its \<open>panic\<close> calls) and of the run time and reflect.\<close>

datatype gpanic =
    NotAFunction site
  | ReturnArity nat
  | ArgumentCount site nat nat
  | ResolvingArgument nat rerror
  | ArgumentType nat gtype gtype
  | ResultCount nat
  | ReturnTypeMismatch gtype
  | WorkerPanic string
  | ChanPanic chan_panic
  | NilPointerDereference
  | ReflectZeroValue
  | ReflectNotAssignable gtype gtype
  | UnhashableKey
  | InvalidAddress

text \<open>
  What a call does: it returns a result, panics, blocks on a promise that is not ready in
  this heap, or the model runs out of fuel (the recursion is deeper than the bound given).
\<close>

datatype 'a outcome = Done 'a | Panic gpanic | Blocks | OutOfFuel


section \<open>The resolver\<close>

text \<open>
  \<open>input.(promiseTypeContract)\<close>: only \<open>*Promise[T]\<close> has the unexported method \<open>get\<close>,
  so the assertion succeeds exactly for pointers to promises, the nil pointer of such a type
  included.
\<close>

fun isPromise :: "gval \<Rightarrow> bool" where
  "isPromise (VPtr (TPromise t) a) = True"
| "isPromise v = False"

text \<open>
  \<^verbatim>\<open>func (p *Promise[T]) get() interface{} { <-p.ready; return p.value }\<close>
  called through the pointer \<open>input\<close>: a nil receiver panics at \<open>p.ready\<close>. An address
  that holds no promise cannot arise in Go; the model gives it the outcome
  \<open>Panic InvalidAddress\<close>.
\<close>

fun get :: "heap \<Rightarrow> gval \<Rightarrow> gval outcome" where
  "get h (VPtr t None) = Panic NilPointerDereference"
| "get h (VPtr t (Some a)) =
     (case deref h a of
        Some (VPromise T p) \<Rightarrow> (case Get p of Some v \<Rightarrow> Done v | None \<Rightarrow> Blocks)
      | _ \<Rightarrow> Panic InvalidAddress)"
| "get h v = Panic InvalidAddress"

text \<open>
  \<open>dst.Set(reflect.ValueOf(x))\<close> for a destination of type \<open>T\<close>:
  \<open>reflect.ValueOf(nil)\<close> is the zero \<open>Value\<close>, on which \<open>Set\<close> panics; otherwise the
  type of \<open>x\<close> must be assignable to \<open>T\<close>.
\<close>

definition Set_panics :: "gtype \<Rightarrow> gval \<Rightarrow> gpanic option" where
  "Set_panics T x =
     (if x = VNil then Some ReflectZeroValue
      else if \<not> AssignableTo (TypeOf x) T then Some (ReflectNotAssignable (TypeOf x) T)
      else None)"

text \<open>
  Map keys are hashed. Slices and maps cannot be hashed; the run time panics when such a
  value arrives as the dynamic value of an interface key.
\<close>

fun comparable :: "gtype \<Rightarrow> bool" where
  "comparable (TSlice t) = False"
| "comparable (TMap k v) = False"
| "comparable (TArray n t) = comparable t"
| "comparable (TPromise t) = comparable t"
| "comparable t = True"

fun hashable :: "gval \<Rightarrow> bool" where
  "hashable (VSlice t xs) = False"
| "hashable (VMap k v m) = False"
| "hashable (VArray t xs) = (comparable t \<and> (\<forall>x \<in> set xs. hashable x))"
| "hashable (VPromise t (Promise v r d)) = (comparable t \<and> hashable v)"
| "hashable v = True"

text \<open>
  \<open>newMap.SetMapIndex(reflect.ValueOf(key), reflect.ValueOf(elem))\<close> on a map of type
  \<open>map[kt]vt\<close>. From the documentation of reflect: "If elem is the zero Value, SetMapIndex
  deletes the key from the map." A zero \<open>Value\<close> as key panics.
\<close>

definition SetMapIndex ::
  "gtype \<Rightarrow> gtype \<Rightarrow> (gval \<times> gval) list \<Rightarrow> gval \<Rightarrow> gval \<Rightarrow> gpanic + (gval \<times> gval) list" where
  "SetMapIndex kt vt m key elem =
     (if key = VNil then Inl ReflectZeroValue
      else if \<not> AssignableTo (TypeOf key) kt then Inl (ReflectNotAssignable (TypeOf key) kt)
      else if elem = VNil then
        (if hashable key then Inr (AList.delete key m) else Inl UnhashableKey)
      else if \<not> AssignableTo (TypeOf elem) vt then Inl (ReflectNotAssignable (TypeOf elem) vt)
      else if hashable key then Inr (AList.update key elem m) else Inl UnhashableKey)"

text \<open>\<open>Value.Len\<close> and \<open>Value.Index\<close> of a slice or array; the entries of a map.\<close>

fun elems :: "gval \<Rightarrow> gval list" where
  "elems (VSlice t (Some xs)) = xs"
| "elems (VArray t xs) = xs"
| "elems v = []"

fun entries :: "gval \<Rightarrow> (gval \<times> gval) list" where
  "entries (VMap k v (Some m)) = m"
| "entries v = []"

fun IsNil :: "gval \<Rightarrow> bool" where
  "IsNil (VPtr t None) = True"
| "IsNil v = False"

text \<open>The address a non-nil pointer holds.\<close>

fun target :: "gval \<Rightarrow> addr option" where
  "target (VPtr t a) = a"
| "target v = None"

type_synonym resolved = "(rerror + gval \<times> heap) outcome"

text \<open>
  The element loop of the slice and array cases,
  \<^verbatim>\<open>for i := 0; i < inputVal.Len(); i++ {
      resolvedElem, err := resolveValue(inputVal.Index(i).Interface(), expectedType.Elem())
      if err != nil { return nil, fmt.Errorf("error resolving ... element at index %d: %v", i, err) }
      newSlice.Index(i).Set(reflect.ValueOf(resolvedElem)) }\<close>
  with the recursive call \<open>rv\<close> and the error wrapper of the case as parameters.
\<close>

fun resolveElems ::
  "(heap \<Rightarrow> gval \<Rightarrow> resolved) \<Rightarrow> (nat \<Rightarrow> rerror \<Rightarrow> rerror) \<Rightarrow> gtype \<Rightarrow> heap \<Rightarrow> gval list \<Rightarrow> nat
     \<Rightarrow> (rerror + gval list \<times> heap) outcome" where
  "resolveElems rv wrap et h [] i = Done (Inr ([], h))"
| "resolveElems rv wrap et h (x # xs) i =
     (case rv h x of
        Done (Inl err) \<Rightarrow> Done (Inl (wrap i err))
      | Done (Inr (resolvedElem, h1)) \<Rightarrow>
          (case Set_panics et resolvedElem of
             Some p \<Rightarrow> Panic p
           | None \<Rightarrow>
               (case resolveElems rv wrap et h1 xs (Suc i) of
                  Done (Inr (rs, h2)) \<Rightarrow> Done (Inr (resolvedElem # rs, h2))
                | other \<Rightarrow> other))
      | Panic p \<Rightarrow> Panic p
      | Blocks \<Rightarrow> Blocks
      | OutOfFuel \<Rightarrow> OutOfFuel)"

text \<open>
  The loop of the map case,
  \<^verbatim>\<open>for _, key := range inputVal.MapKeys() {
      resolvedKey, err := resolveValue(key.Interface(), expectedType.Key())
      if err != nil { return nil, fmt.Errorf("error resolving map key %v: %v", key.Interface(), err) }
      resolvedValue, err := resolveValue(inputVal.MapIndex(key).Interface(), expectedType.Elem())
      if err != nil { return nil, fmt.Errorf("error resolving map value for key %v: %v", resolvedKey, err) }
      newMap.SetMapIndex(reflect.ValueOf(resolvedKey), reflect.ValueOf(resolvedValue)) }\<close>
  over the entries of the input, with the map built so far as accumulator.
\<close>

fun resolveEntries ::
  "(heap \<Rightarrow> gval \<Rightarrow> gtype \<Rightarrow> resolved) \<Rightarrow> gtype \<Rightarrow> gtype \<Rightarrow> heap \<Rightarrow> (gval \<times> gval) list
     \<Rightarrow> (gval \<times> gval) list \<Rightarrow> (rerror + (gval \<times> gval) list \<times> heap) outcome" where
  "resolveEntries rv kt vt h [] newMap = Done (Inr (newMap, h))"
| "resolveEntries rv kt vt h ((key, elem) # rest) newMap =
     (case rv h key kt of
        Done (Inl err) \<Rightarrow> Done (Inl (MapKey key err))
      | Done (Inr (resolvedKey, h1)) \<Rightarrow>
          (case rv h1 elem vt of
             Done (Inl err) \<Rightarrow> Done (Inl (MapValue resolvedKey err))
           | Done (Inr (resolvedValue, h2)) \<Rightarrow>
               (case SetMapIndex kt vt newMap resolvedKey resolvedValue of
                  Inl p \<Rightarrow> Panic p
                | Inr newMap' \<Rightarrow> resolveEntries rv kt vt h2 rest newMap')
           | Panic p \<Rightarrow> Panic p
           | Blocks \<Rightarrow> Blocks
           | OutOfFuel \<Rightarrow> OutOfFuel)
      | Panic p \<Rightarrow> Panic p
      | Blocks \<Rightarrow> Blocks
      | OutOfFuel \<Rightarrow> OutOfFuel)"

text \<open>
  \<open>resolveValue(input, expectedType)\<close>. The first argument after the conversions bounds
  the depth of the recursion: promises can form a cycle in the heap, on which the Go
  function does not return.
\<close>

fun resolveValue :: "conv \<Rightarrow> nat \<Rightarrow> heap \<Rightarrow> gval \<Rightarrow> gtype \<Rightarrow> resolved" where
  "resolveValue cv 0 h input expectedType = OutOfFuel"
| "resolveValue cv (Suc n) h input expectedType =
     (if input = VNil then Done (Inr (Zero expectedType, h))
      else if isPromise input then
        (case get h input of
           Done resolved \<Rightarrow> resolveValue cv n h resolved expectedType
         | Panic p \<Rightarrow> Panic p
         | Blocks \<Rightarrow> Blocks
         | OutOfFuel \<Rightarrow> OutOfFuel)
      else if Kind expectedType = KPtr then
        (if KindOf input \<noteq> KPtr then
           Done (Inl (ExpectedPointer expectedType (TypeOf input)))
         else if IsNil input then Done (Inr (Zero expectedType, h))
         else
           (case target input of
              None \<Rightarrow> Panic InvalidAddress
            | Some a \<Rightarrow>
           (case deref h a of
              None \<Rightarrow> Panic InvalidAddress
            | Some pointee \<Rightarrow>
           (case resolveValue cv n h pointee (Elem expectedType) of
              Done (Inl err) \<Rightarrow> Done (Inl err)
            | Done (Inr (resolvedElem, h1)) \<Rightarrow>
                (case Set_panics (Elem expectedType) resolvedElem of
                   Some p \<Rightarrow> Panic p
                 | None \<Rightarrow>
                     (let (newPtr, h2) = alloc h1 resolvedElem
                      in Done (Inr (VPtr (Elem expectedType) (Some newPtr), h2))))
            | other \<Rightarrow> other))))
      else
        (case expectedType of
           TSlice et \<Rightarrow>
             (if KindOf input \<noteq> KSlice then Done (Inl (ExpectedSlice (KindOf input)))
              else
                (case resolveElems (\<lambda>h' x. resolveValue cv n h' x et) SliceElement et h
                        (elems input) 0 of
                   Done (Inr (newSlice, h1)) \<Rightarrow> Done (Inr (VSlice et (Some newSlice), h1))
                 | Done (Inl err) \<Rightarrow> Done (Inl err)
                 | Panic p \<Rightarrow> Panic p
                 | Blocks \<Rightarrow> Blocks
                 | OutOfFuel \<Rightarrow> OutOfFuel))
         | TArray len et \<Rightarrow>
             (if KindOf input \<noteq> KArray then Done (Inl (ExpectedArray (KindOf input)))
              else if length (elems input) \<noteq> len then
                Done (Inl (ArrayLength len (length (elems input))))
              else
                (case resolveElems (\<lambda>h' x. resolveValue cv n h' x et) ArrayElement et h
                        (elems input) 0 of
                   Done (Inr (newArray, h1)) \<Rightarrow> Done (Inr (VArray et newArray, h1))
                 | Done (Inl err) \<Rightarrow> Done (Inl err)
                 | Panic p \<Rightarrow> Panic p
                 | Blocks \<Rightarrow> Blocks
                 | OutOfFuel \<Rightarrow> OutOfFuel))
         | TMap kt vt \<Rightarrow>
             (if KindOf input \<noteq> KMap then Done (Inl (ExpectedMap (KindOf input)))
              else
                (case resolveEntries (\<lambda>h' x t. resolveValue cv n h' x t) kt vt h
                        (entries input) [] of
                   Done (Inr (newMap, h1)) \<Rightarrow> Done (Inr (VMap kt vt (Some newMap), h1))
                 | Done (Inl err) \<Rightarrow> Done (Inl err)
                 | Panic p \<Rightarrow> Panic p
                 | Blocks \<Rightarrow> Blocks
                 | OutOfFuel \<Rightarrow> OutOfFuel))
         | TInterface \<Rightarrow> Done (Inr (input, h))
         | _ \<Rightarrow>
             (if AssignableTo (TypeOf input) expectedType then Done (Inr (input, h))
              else if ConvertibleTo cv (TypeOf input) expectedType then
                Done (Inr (Convert cv input expectedType, h))
              else Done (Inl (CannotAssignOrConvert (TypeOf input) expectedType)))))"


text \<open>
  \<^verbatim>\<open>func shallowResolve(input interface{}, expectedType reflect.Type) (interface{}, error) {
      if input == nil { return reflect.Zero(expectedType).Interface(), nil }
      if promise, ok := input.(promiseTypeContract); ok { resolved := promise.get(); return resolved, nil }
      return input, nil }\<close>
  It allocates nothing, so the heap is returned as it came.
\<close>

definition shallowResolve :: "heap \<Rightarrow> gval \<Rightarrow> gtype \<Rightarrow> resolved" where
  "shallowResolve h input expectedType =
     (if input = VNil then Done (Inr (Zero expectedType, h))
      else if isPromise input then
        (case get h input of
           Done resolved \<Rightarrow> Done (Inr (resolved, h))
         | Panic p \<Rightarrow> Panic p
         | Blocks \<Rightarrow> Blocks
         | OutOfFuel \<Rightarrow> OutOfFuel)
      else Done (Inr (input, h)))"

section \<open>Async and Sync\<close>

text \<open>
  The argument \<open>f interface{}\<close> is a function or some other value. A function is its
  signature (what \<open>reflect.Type\<close> tells: the parameter types and the number of results;
  variadic functions are not supported by the package) and its body. The body reads the
  heap and its arguments and returns its results or panics (a nil function value is a
  body that panics); it may allocate new cells, which it returns with addresses counted
  from the length of the heap it was given.
\<close>

datatype call_result = Returns "gval list" | Panics string

record gfunc =
  In :: "gtype list"
  NumOut :: nat
  Call :: "heap \<Rightarrow> gval list \<Rightarrow> call_result \<times> gval list"

definition NumIn :: "gfunc \<Rightarrow> nat" where
  "NumIn fv = length (In fv)"

datatype callee = NotFunc gval | Func gfunc

text \<open>
  The type assertion \<open>x.(T)\<close>: for a concrete type the dynamic type of \<open>x\<close> must be \<open>T\<close>;
  for the empty interface \<open>x\<close> must not be nil.
\<close>

definition type_assert :: "gval \<Rightarrow> gtype \<Rightarrow> bool" where
  "type_assert x T = (x \<noteq> VNil \<and> (T = TInterface \<or> TypeOf x = T))"

text \<open>
  The second half of the body of the argument loop of \<open>executeFunction\<close>:
  \<^verbatim>\<open>if resolved == nil { resolvedArgs[i] = reflect.Zero(expectedType)
  } else {
      resolvedVal := reflect.ValueOf(resolved)
      if !resolvedVal.Type().AssignableTo(expectedType) {
          if resolvedVal.Type().ConvertibleTo(expectedType) { resolvedVal = resolvedVal.Convert(expectedType)
          } else { panic(fmt.Sprintf("pas.executeFunction: argument %d has type %s, expected %s", ...)) } }
      resolvedArgs[i] = resolvedVal }\<close>
\<close>

definition resolvedArg :: "conv \<Rightarrow> nat \<Rightarrow> gval \<Rightarrow> gtype \<Rightarrow> gpanic + gval" where
  "resolvedArg cv i resolved expectedType =
     (if resolved = VNil then Inr (Zero expectedType)
      else if \<not> AssignableTo (TypeOf resolved) expectedType then
        (if ConvertibleTo cv (TypeOf resolved) expectedType then
           Inr (Convert cv resolved expectedType)
         else Inl (ArgumentType i (TypeOf resolved) expectedType))
      else Inr resolved)"

text \<open>
  The argument loop of \<open>executeFunction\<close>,
  \<^verbatim>\<open>for i, arg := range args {
      expectedType := ft.In(i)
      if recursive { resolved, err = resolveValue(arg, expectedType)
      } else { resolved, err = shallowResolve(arg, expectedType) }
      if err != nil { panic(fmt.Sprintf("pas.executeFunction: error resolving argument %d: %v", i, err)) }
      ... }\<close>
  The list \<open>ts\<close> holds the types \<open>ft.In(i)\<close>, \<open>ft.In(i+1)\<close>, ... of the arguments still to
  come; \<open>executeFunction\<close> has checked that there are as many types as arguments.
\<close>

fun resolveArgs ::
  "conv \<Rightarrow> nat \<Rightarrow> bool \<Rightarrow> heap \<Rightarrow> gtype list \<Rightarrow> gval list \<Rightarrow> nat \<Rightarrow> (gval list \<times> heap) outcome" where
  "resolveArgs cv n recursive h (expectedType # ts) (arg # args) i =
     (case (if recursive then resolveValue cv n h arg expectedType
            else shallowResolve h arg expectedType) of
        Done (Inl err) \<Rightarrow> Panic (ResolvingArgument i err)
      | Done (Inr (resolved, h1)) \<Rightarrow>
          (case resolvedArg cv i resolved expectedType of
             Inl p \<Rightarrow> Panic p
           | Inr resolvedVal \<Rightarrow>
               (case resolveArgs cv n recursive h1 ts args (Suc i) of
                  Done (resolvedArgs, h2) \<Rightarrow> Done (resolvedVal # resolvedArgs, h2)
                | other \<Rightarrow> other))
      | Panic p \<Rightarrow> Panic p
      | Blocks \<Rightarrow> Blocks
      | OutOfFuel \<Rightarrow> OutOfFuel)"
| "resolveArgs cv n recursive h ts args i = Done ([], h)"

text \<open>
  \<open>executeFunction[T](f, recursive, args...)\<close>. \<open>ft := fv.Type()\<close> comes before the test
  of the kind and panics on the zero \<open>Value\<close> of a nil \<open>f\<close>. A panic of the worker
  passes through.
\<close>

definition executeFunction ::
  "conv \<Rightarrow> nat \<Rightarrow> gtype \<Rightarrow> heap \<Rightarrow> callee \<Rightarrow> bool \<Rightarrow> gval list \<Rightarrow> (gval \<times> heap) outcome" where
  "executeFunction cv n T h f recursive args =
     (case f of
        NotFunc v \<Rightarrow>
          (if v = VNil then Panic ReflectZeroValue else Panic (NotAFunction AtExecuteFunction))
      | Func fv \<Rightarrow>
          (if NumOut fv \<noteq> 1 then Panic (ReturnArity (NumOut fv))
           else if NumIn fv \<noteq> length args then
             Panic (ArgumentCount AtExecuteFunction (NumIn fv) (length args))
           else
             (case resolveArgs cv n recursive h (In fv) args 0 of
                Done (resolvedArgs, h1) \<Rightarrow>
                  (case Call fv h1 resolvedArgs of
                     (Panics msg, cells) \<Rightarrow> Panic (WorkerPanic msg)
                   | (Returns results, cells) \<Rightarrow>
                       (if length results \<noteq> 1 then Panic (ResultCount (length results))
                        else if type_assert (results ! 0) T then Done (results ! 0, h1 @ cells)
                        else Panic (ReturnTypeMismatch T)))
              | Panic p \<Rightarrow> Panic p
              | Blocks \<Rightarrow> Blocks
              | OutOfFuel \<Rightarrow> OutOfFuel)))"

text \<open>
  The head of \<open>Async\<close> and \<open>Sync\<close>:
  \<^verbatim>\<open>var recursive bool
  if len(args) == numRequiredArgs+1 {
      if flag, ok := args[len(args)-1].(bool); ok {
          recursive = flag
          args = args[:len(args)-1] } }\<close>
\<close>

definition stripFlag :: "nat \<Rightarrow> gval list \<Rightarrow> bool \<times> gval list" where
  "stripFlag numRequiredArgs args =
     (if length args = numRequiredArgs + 1 then
        (case last args of
           VBool flag \<Rightarrow> (flag, butlast args)
         | _ \<Rightarrow> (False, args))
      else (False, args))"

text \<open>\<open>Sync[T](f, args...)\<close>: the checks of the head, then \<open>executeFunction\<close> inline.\<close>

definition Sync ::
  "conv \<Rightarrow> nat \<Rightarrow> gtype \<Rightarrow> heap \<Rightarrow> callee \<Rightarrow> gval list \<Rightarrow> (gval \<times> heap) outcome" where
  "Sync cv n T h f args =
     (case f of
        NotFunc v \<Rightarrow> Panic (NotAFunction AtSync)
      | Func fv \<Rightarrow>
          (let numRequiredArgs = NumIn fv;
               (recursive, args') = stripFlag numRequiredArgs args
           in if length args' \<noteq> numRequiredArgs then
                Panic (ArgumentCount AtSync numRequiredArgs (length args'))
              else executeFunction cv n T h f recursive args'))"

text \<open>
  \<open>Async[T](f, args...)\<close> runs the same head, allocates a pending promise and starts a
  goroutine. What the call itself does is separate from what the goroutine does later:
  \<open>Async\<close> returns the pointer to the promise, the heap with the new promise, and the
  goroutine it has started, which is a closure over \<open>f\<close>, \<open>recursive\<close>, \<open>args\<close> and \<open>p\<close>.
\<close>

record goroutine =
  g_f :: callee
  g_recursive :: bool
  g_args :: "gval list"
  g_p :: addr

definition Async ::
  "gtype \<Rightarrow> heap \<Rightarrow> callee \<Rightarrow> gval list \<Rightarrow> gpanic + gval \<times> heap \<times> goroutine" where
  "Async T h f args =
     (case f of
        NotFunc v \<Rightarrow> Inl (NotAFunction AtAsync)
      | Func fv \<Rightarrow>
          (let numRequiredArgs = NumIn fv;
               (recursive, args') = stripFlag numRequiredArgs args
           in if length args' \<noteq> numRequiredArgs then
                Inl (ArgumentCount AtAsync numRequiredArgs (length args'))
              else
                (let (p, h1) = alloc h (VPromise T (NewPending (Zero T)))
                 in Inr (VPtr (TPromise T) (Some p), h1,
                         \<lparr>g_f = f, g_recursive = recursive, g_args = args', g_p = p\<rparr>))))"

text \<open>
  \<open>p.resolve(output)\<close> through the pointer: the promise in the cell is replaced by the one
  \<open>Resolve\<close> leaves, and a panic of \<open>close\<close> is passed on.
\<close>

definition resolve :: "heap \<Rightarrow> addr \<Rightarrow> gval \<Rightarrow> heap \<times> gpanic option" where
  "resolve h p v =
     (case deref h p of
        Some (VPromise T pr) \<Rightarrow>
          (case Resolve pr v of
             (pr', None) \<Rightarrow> (h[p := VPromise T pr'], None)
           | (pr', Some e) \<Rightarrow> (h[p := VPromise T pr'], Some (ChanPanic e)))
      | _ \<Rightarrow> (h, Some InvalidAddress))"

text \<open>
  The goroutine of \<open>Async\<close>, run to its end on a heap:
  \<^verbatim>\<open>go func() {
      defer func() {
          if r := recover(); r != nil { fmt.Printf("Async: function execution panicked: %v\n", r) } }()
      output := executeFunction[T](f, recursive, args...)
      p.resolve(output) }()\<close>
  The result tells how the goroutine ended, the heap it leaves and what it printed (the
  recovered panic values). After a panic of \<open>executeFunction\<close> nothing that the
  goroutine allocated is reachable, and the heap is the one it started on.
\<close>

datatype ending = Returned | Recovered | Waiting | Unknown

definition run_goroutine ::
  "conv \<Rightarrow> nat \<Rightarrow> gtype \<Rightarrow> heap \<Rightarrow> goroutine \<Rightarrow> ending \<times> heap \<times> gpanic list" where
  "run_goroutine cv n T h g =
     (case executeFunction cv n T h (g_f g) (g_recursive g) (g_args g) of
        Done (output, h1) \<Rightarrow>
          (case resolve h1 (g_p g) output of
             (h2, None) \<Rightarrow> (Returned, h2, [])
           | (h2, Some r) \<Rightarrow> (Recovered, h2, [r]))
      | Panic r \<Rightarrow> (Recovered, h, [r])
      | Blocks \<Rightarrow> (Waiting, h, [])
      | OutOfFuel \<Rightarrow> (Unknown, h, []))"

section \<open>Values for concrete runs\<close>

text \<open>
  A conversion relation: every type converts to itself and to nothing else, and the
  conversion leaves the value as it is.
\<close>

definition identity_conv :: conv where
  "identity_conv = \<lparr>ConvertibleTo = (\<lambda>V T. V = T), Convert = (\<lambda>v T. v)\<rparr>"

text \<open>
  A worker:
  \<^verbatim>\<open>func First(arr []interface{}) interface{} { return arr[0] }\<close>
\<close>

definition First :: gfunc where
  "First = \<lparr>In = [TSlice TInterface], NumOut = 1,
     Call = (\<lambda>h vs. case vs of
                [VSlice t (Some (x # xs))] \<Rightarrow> (Returns [x], [])
              | _ \<Rightarrow> (Panics ''index out of range'', []))\<rparr>"

text \<open>The cell of a promise that \<open>New(v)\<close> made or that was resolved with \<open>v\<close>.\<close>

definition ready_promise :: "gtype \<Rightarrow> gval \<Rightarrow> gval" where
  "ready_promise T v = VPromise T (Promise v ChClosed True)"

text \<open>
  \<^verbatim>\<open>func Two() (int, int) { return 1, 2 }\<close> and
  \<^verbatim>\<open>func Boom(x int) int { panic("boom") }\<close>
\<close>

definition Two :: gfunc where
  "Two = \<lparr>In = [], NumOut = 2, Call = (\<lambda>h vs. (Returns [VInt 1, VInt 2], []))\<rparr>"

definition Boom :: gfunc where
  "Boom = \<lparr>In = [TInt], NumOut = 1, Call = (\<lambda>h vs. (Panics ''boom'', []))\<rparr>"

section \<open>Chains of promises\<close>

text \<open>
  \<open>nested h k input v\<close>: in the heap \<open>h\<close>, \<open>input\<close> is a promise that holds a promise
  that holds ... \<open>v\<close>, through \<open>k\<close> ready promises.
\<close>

fun nested :: "heap \<Rightarrow> nat \<Rightarrow> gval \<Rightarrow> gval \<Rightarrow> bool" where
  "nested h 0 input v = (input = v)"
| "nested h (Suc k) input v =
     (isPromise input \<and>
      (case get h input of
         Done payload \<Rightarrow> nested h k payload v
       | _ \<Rightarrow> False))"

section \<open>Shallow mode in the words of the specification\<close>

text \<open>
  What the specification says shallow mode does to one argument, for comparison with
  \<open>shallowResolve\<close>: \<open>shallow_spec h t arg w\<close> holds when \<open>w\<close> is the zero value of the
  expected type \<open>t\<close> for a nil argument, the payload of the promise for an argument
  that is a ready promise, with no descent into the payload, and the argument itself,
  untouched, for every other argument.
\<close>

fun shallow_spec :: "heap \<Rightarrow> gtype \<Rightarrow> gval \<Rightarrow> gval \<Rightarrow> bool" where
  "shallow_spec h t VNil w = (w = Zero t)"
| "shallow_spec h t (VPtr (TPromise U) (Some a)) w =
     (case deref h a of
        Some (VPromise U' p) \<Rightarrow> Get p = Some w
      | _ \<Rightarrow> False)"
| "shallow_spec h t (VPtr (TPromise U) None) w = False"
| "shallow_spec h t arg w = (w = arg)"

section \<open>Properties of the promise\<close>

lemma Resolve_once: "once (fst (Resolve p v))"
  by (simp add: Resolve_def once_Do_def split: prod.splits)

lemma Resolve_idle: "once p \<Longrightarrow> Resolve p v = (p, None)"
  by (simp add: Resolve_def once_Do_def)

lemma Resolve_pending:
  "ready p = ChOpen \<Longrightarrow> \<not> once p \<Longrightarrow> Resolve p v = (Promise v ChClosed True, None)"
  by (simp add: Resolve_def once_Do_def close_ready_def)

lemma guarded_Resolve: "guarded p \<Longrightarrow> guarded (fst (Resolve p v))"
  by (simp add: guarded_def Resolve_def once_Do_def split: prod.splits)

lemma New_one: "New z [v] = Inr (Promise v ChClosed True)"
  by (simp add: New_def once_Do_def close_ready_def)

lemma New_none: "New z [] = Inr (Promise z ChClosed True)"
  by (simp add: New_def once_Do_def close_ready_def)

lemma guarded_New: "New z vs = Inr p \<Longrightarrow> guarded p"
  by (auto simp: New_def guarded_def Let_def once_Do_def split: if_splits prod.splits)

text \<open>
  Claim C1, as the code has it. Every operation keeps a promise guarded. Once a guarded
  promise is ready, \<open>Resolve\<close> leaves the value that \<open>Get\<close> returns as it is. A second
  \<open>Resolve\<close> changes nothing at all. On a pending promise (channel open, \<open>once\<close> not
  yet used, as \<open>NewPending\<close> makes it) \<open>Resolve v1\<close> and then \<open>Resolve v2\<close> leave
  \<open>Get\<close> returning \<open>v1\<close>. \<open>Get\<close> is a function of the state and cannot change it.
\<close>

theorem promise_single_assignment:
  "guarded (NewPending z)
   \<and> (New z vs = Inr q \<longrightarrow> guarded q)
   \<and> (guarded p \<longrightarrow> guarded (fst (Resolve p v)))
   \<and> (guarded p \<longrightarrow> Get p = Some x \<longrightarrow> Get (fst (Resolve p v)) = Some x)
   \<and> Resolve (fst (Resolve p v1)) v2 = (fst (Resolve p v1), None)
   \<and> (ready p = ChOpen \<longrightarrow> \<not> once p \<longrightarrow>
        Get (fst (Resolve p v1)) = Some v1
        \<and> Get (fst (Resolve (fst (Resolve p v1)) v2)) = Some v1)"
proof -
  have a: "guarded (NewPending z)"
    by (simp add: guarded_def NewPending_def)
  have b: "New z vs = Inr q \<longrightarrow> guarded q"
    by (simp add: guarded_New)
  have c: "guarded p \<longrightarrow> guarded (fst (Resolve p v))"
    by (simp add: guarded_Resolve)
  have d: "guarded p \<longrightarrow> Get p = Some x \<longrightarrow> Get (fst (Resolve p v)) = Some x"
    by (auto simp: guarded_def Get_def Resolve_idle split: if_splits)
  have e: "Resolve (fst (Resolve p v1)) v2 = (fst (Resolve p v1), None)"
    by (rule Resolve_idle) (rule Resolve_once)
  have f: "ready p = ChOpen \<longrightarrow> \<not> once p \<longrightarrow>
        Get (fst (Resolve p v1)) = Some v1
        \<and> Get (fst (Resolve (fst (Resolve p v1)) v2)) = Some v1"
    by (simp add: e) (simp add: Resolve_pending Get_def)
  from a b c d e f show ?thesis by blast
qed

text \<open>The hypotheses of C1 at concrete promises.\<close>

theorem promise_single_assignment_witness:
  "New (0::int) [] = Inr (Promise 0 ChClosed True)
   \<and> guarded (Promise (0::int) ChClosed True)
   \<and> Get (Promise (0::int) ChClosed True) = Some 0
   \<and> Get (fst (Resolve (Promise (0::int) ChClosed True) 7)) = Some 0
   \<and> ready (NewPending (0::int)) = ChOpen \<and> \<not> once (NewPending (0::int))
   \<and> Get (fst (Resolve (fst (Resolve (NewPending (0::int)) 1)) 2)) = Some 1"
proof -
  have n: "New (0::int) [] = Inr (Promise 0 ChClosed True)"
    by (rule New_none)
  have r: "ready (NewPending (0::int)) = ChOpen" and o: "\<not> once (NewPending (0::int))"
    by (simp_all add: NewPending_def)
  have g: "Get (Promise (0::int) ChClosed True) = Some 0"
    by (simp add: Get_def)
  note t = promise_single_assignment
    [where z = "0::int" and vs = "[]" and q = "Promise 0 ChClosed True"
       and p = "Promise 0 ChClosed True" and v = 7 and x = 0]
  note u = promise_single_assignment
    [where z = "0::int" and vs = "[]" and q = "Promise 0 ChClosed True"
       and p = "NewPending (0::int)" and v = 7 and x = 0 and ?v1.0 = 1 and ?v2.0 = 2]
  from t n have gd: "guarded (Promise (0::int) ChClosed True)" by blast
  from t gd g have k: "Get (fst (Resolve (Promise (0::int) ChClosed True) 7)) = Some 0" by blast
  from u r o have "Get (fst (Resolve (fst (Resolve (NewPending (0::int)) 1)) 2)) = Some 1" by blast
  with n gd g k r o show ?thesis by blast
qed

text \<open>
  C1 as stated speaks of every promise. On the ready promise \<open>New(5)\<close> both calls of
  \<open>Resolve\<close> are without effect, and \<open>Get\<close> returns 5 after \<open>Resolve(1)\<close> and
  \<open>Resolve(2)\<close>, not 1.
\<close>

theorem resolve_twice_counterexample:
  "New (0::int) [5] = Inr (Promise 5 ChClosed True)
   \<and> Get (fst (Resolve (fst (Resolve (Promise (5::int) ChClosed True) 1)) 2)) = Some 5
   \<and> Get (fst (Resolve (fst (Resolve (Promise (5::int) ChClosed True) 1)) 2)) \<noteq> Some 1"
  by (simp add: New_one Resolve_idle Get_def)

text \<open>
  Claim C5. \<open>New(v)\<close> is ready and \<open>Get\<close> returns \<open>v\<close> without blocking; \<open>New()\<close> is
  ready with the zero value; \<open>New\<close> with more than one value panics with the number of
  values it was given.
\<close>

theorem New_ready:
  "(\<exists>p. New z [v] = Inr p \<and> Get p = Some v)
   \<and> (\<exists>p. New z [] = Inr p \<and> Get p = Some z)
   \<and> (1 < length vs \<longrightarrow> New z vs = Inl (NewExpectedAtMostOneValue (length vs)))"
  by (simp add: New_one New_none Get_def) (auto simp: New_def Let_def)

text \<open>\<open>New(3, 4)\<close> panics.\<close>

theorem New_ready_witness:
  "1 < length [3, 4 :: int] \<and> New 0 [3, 4 :: int] = Inl (NewExpectedAtMostOneValue 2)"
proof -
  have h: "1 < length [3, 4 :: int]" by simp
  from New_ready [of 0 _ "[3, 4 :: int]"] h
  have "New 0 [3, 4 :: int] = Inl (NewExpectedAtMostOneValue (length [3, 4 :: int]))" by blast
  with h show ?thesis by simp
qed



section \<open>Properties of the resolver\<close>

declare resolveValue.simps [simp del]

lemma isPromise_not_nil: "isPromise v \<Longrightarrow> v \<noteq> VNil"
  by auto

lemma resolveValue_nil: "resolveValue cv (Suc n) h VNil T = Done (Inr (Zero T, h))"
  by (simp add: resolveValue.simps)

lemma resolveValue_promise:
  "isPromise input \<Longrightarrow>
   resolveValue cv (Suc n) h input T =
     (case get h input of
        Done resolved \<Rightarrow> resolveValue cv n h resolved T
      | Panic p \<Rightarrow> Panic p
      | Blocks \<Rightarrow> Blocks
      | OutOfFuel \<Rightarrow> OutOfFuel)"
  by (auto simp: isPromise_not_nil resolveValue.simps)

lemma resolveValue_array:
  "input \<noteq> VNil \<Longrightarrow> \<not> isPromise input \<Longrightarrow>
   resolveValue cv (Suc n) h input (TArray len et) =
     (if KindOf input \<noteq> KArray then Done (Inl (ExpectedArray (KindOf input)))
      else if length (elems input) \<noteq> len then
        Done (Inl (ArrayLength len (length (elems input))))
      else
        (case resolveElems (\<lambda>h' x. resolveValue cv n h' x et) ArrayElement et h
                (elems input) 0 of
           Done (Inr (newArray, h1)) \<Rightarrow> Done (Inr (VArray et newArray, h1))
         | Done (Inl err) \<Rightarrow> Done (Inl err)
         | Panic p \<Rightarrow> Panic p
         | Blocks \<Rightarrow> Blocks
         | OutOfFuel \<Rightarrow> OutOfFuel))"
  by (simp add: resolveValue.simps)

lemma resolveElems_length:
  "resolveElems rv wrap et h xs i = Done (Inr (rs, h')) \<Longrightarrow> length rs = length xs"
proof (induction xs arbitrary: h i rs)
  case Nil
  then show ?case by simp
next
  case (Cons x xs)
  then show ?case
    by (auto split: outcome.splits sum.splits prod.splits option.splits)
qed

text \<open>
  Claim C7, as the code has it. Against an array type \<open>[len]et\<close>, an input that is
  neither nil nor a promise is first tested for being an array: anything else, a slice of
  whatever length included, fails with the error "expected an array, but got <kind>". An
  array of another length fails with the length error, so a resolution that succeeds had
  an array of the expected length as input and returns an array of that length.
\<close>

theorem array_length_checked:
  assumes "input \<noteq> VNil" and "\<not> isPromise input"
  shows "(KindOf input = KArray \<longrightarrow> length (elems input) \<noteq> len \<longrightarrow>
            resolveValue cv (Suc n) h input (TArray len et)
              = Done (Inl (ArrayLength len (length (elems input)))))
       \<and> (KindOf input \<noteq> KArray \<longrightarrow>
            resolveValue cv (Suc n) h input (TArray len et)
              = Done (Inl (ExpectedArray (KindOf input))))
       \<and> (resolveValue cv (Suc n) h input (TArray len et) = Done (Inr (r, h')) \<longrightarrow>
            KindOf input = KArray \<and> length (elems input) = len
            \<and> (\<exists>rs. r = VArray et rs \<and> length rs = len))"
proof -
  note eq = resolveValue_array [OF assms]
  have a: "KindOf input = KArray \<longrightarrow> length (elems input) \<noteq> len \<longrightarrow>
            resolveValue cv (Suc n) h input (TArray len et)
              = Done (Inl (ArrayLength len (length (elems input))))"
    by (simp add: eq)
  have b: "KindOf input \<noteq> KArray \<longrightarrow>
            resolveValue cv (Suc n) h input (TArray len et)
              = Done (Inl (ExpectedArray (KindOf input)))"
    by (simp add: eq)
  have c: "resolveValue cv (Suc n) h input (TArray len et) = Done (Inr (r, h')) \<longrightarrow>
            KindOf input = KArray \<and> length (elems input) = len
            \<and> (\<exists>rs. r = VArray et rs \<and> length rs = len)"
    unfolding eq
    by (auto split: if_splits outcome.splits sum.splits prod.splits dest: resolveElems_length)
  from a b c show ?thesis by blast
qed

text \<open>
  C7 as stated: the slice \<open>[]int{1, 2, 3}\<close> against \<open>[2]int\<close> does not fail with the
  length error "expected array of length 2, but got 3" but with "expected an array, but
  got slice".
\<close>

theorem slice_against_array_counterexample:
  "resolveValue identity_conv 1 [] (VSlice TInt (Some [VInt 1, VInt 2, VInt 3])) (TArray 2 TInt)
     = Done (Inl (ExpectedArray KSlice))
   \<and> resolveValue identity_conv 1 [] (VSlice TInt (Some [VInt 1, VInt 2, VInt 3])) (TArray 2 TInt)
     \<noteq> Done (Inl (ArrayLength 2 3))"
  by (simp add: KindOf_def resolveValue.simps)

text \<open>
  C7 on \<open>[3]int{1, 2, 3}\<close>, on \<open>[]int{1, 2}\<close> and on \<open>[2]int{1, 2}\<close>, each against
  \<open>[2]int\<close>.
\<close>

theorem array_length_checked_witness:
  "VArray TInt [VInt 1, VInt 2, VInt 3] \<noteq> VNil
   \<and> \<not> isPromise (VArray TInt [VInt 1, VInt 2, VInt 3])
   \<and> KindOf (VArray TInt [VInt 1, VInt 2, VInt 3]) = KArray
   \<and> length (elems (VArray TInt [VInt 1, VInt 2, VInt 3])) \<noteq> 2
   \<and> resolveValue identity_conv (Suc 0) [] (VArray TInt [VInt 1, VInt 2, VInt 3]) (TArray 2 TInt)
       = Done (Inl (ArrayLength 2 3))
   \<and> KindOf (VSlice TInt (Some [VInt 1, VInt 2])) \<noteq> KArray
   \<and> resolveValue identity_conv (Suc 0) [] (VSlice TInt (Some [VInt 1, VInt 2])) (TArray 2 TInt)
       = Done (Inl (ExpectedArray KSlice))
   \<and> resolveValue identity_conv (Suc (Suc 0)) [] (VArray TInt [VInt 1, VInt 2]) (TArray 2 TInt)
       = Done (Inr (VArray TInt [VInt 1, VInt 2], []))
   \<and> length (elems (VArray TInt [VInt 1, VInt 2])) = 2"
proof -
  have a1: "VArray TInt [VInt 1, VInt 2, VInt 3] \<noteq> VNil"
    and a2: "\<not> isPromise (VArray TInt [VInt 1, VInt 2, VInt 3])"
    and a3: "KindOf (VArray TInt [VInt 1, VInt 2, VInt 3]) = KArray"
    and a4: "length (elems (VArray TInt [VInt 1, VInt 2, VInt 3])) \<noteq> 2"
    by (simp_all add: KindOf_def)
  have b1: "VSlice TInt (Some [VInt 1, VInt 2]) \<noteq> VNil"
    and b2: "\<not> isPromise (VSlice TInt (Some [VInt 1, VInt 2]))"
    and b3: "KindOf (VSlice TInt (Some [VInt 1, VInt 2])) \<noteq> KArray"
    by (simp_all add: KindOf_def)
  have c1: "VArray TInt [VInt 1, VInt 2] \<noteq> VNil"
    and c2: "\<not> isPromise (VArray TInt [VInt 1, VInt 2])"
    by simp_all
  have c3: "resolveValue identity_conv (Suc (Suc 0)) [] (VArray TInt [VInt 1, VInt 2]) (TArray 2 TInt)
       = Done (Inr (VArray TInt [VInt 1, VInt 2], []))"
    by (simp add: resolveValue.simps KindOf_def Set_panics_def AssignableTo_def)
  from array_length_checked [OF a1 a2, where len = 2 and cv = identity_conv and n = 0
      and h = "[]" and et = TInt and r = VNil and h' = "[]"] a3 a4
  have a: "resolveValue identity_conv (Suc 0) [] (VArray TInt [VInt 1, VInt 2, VInt 3]) (TArray 2 TInt)
       = Done (Inl (ArrayLength 2 3))"
    by simp
  from array_length_checked [OF b1 b2, where len = 2 and cv = identity_conv and n = 0
      and h = "[]" and et = TInt and r = VNil and h' = "[]"] b3
  have b: "resolveValue identity_conv (Suc 0) [] (VSlice TInt (Some [VInt 1, VInt 2])) (TArray 2 TInt)
       = Done (Inl (ExpectedArray KSlice))"
    by (simp add: KindOf_def)
  from array_length_checked [OF c1 c2, where len = 2 and cv = identity_conv and n = "Suc 0"
      and h = "[]" and et = TInt and r = "VArray TInt [VInt 1, VInt 2]" and h' = "[]"] c3
  have c: "length (elems (VArray TInt [VInt 1, VInt 2])) = 2"
    by blast
  from a1 a2 a3 a4 a b3 b c3 c show ?thesis by blast
qed

section \<open>Shallow resolution\<close>

lemma get_promise:
  "deref h a = Some (VPromise U p) \<Longrightarrow>
   get h (VPtr t (Some a)) = (case Get p of Some v \<Rightarrow> Done v | None \<Rightarrow> Blocks)"
  by simp

lemma shallowResolve_nil: "shallowResolve h VNil T = Done (Inr (Zero T, h))"
  by (simp add: shallowResolve_def)

lemma shallowResolve_promise:
  "deref h a = Some (VPromise U p) \<Longrightarrow> Get p = Some v \<Longrightarrow>
   shallowResolve h (VPtr (TPromise U) (Some a)) T = Done (Inr (v, h))"
  by (simp add: shallowResolve_def)

lemma shallowResolve_other:
  "input \<noteq> VNil \<Longrightarrow> \<not> isPromise input \<Longrightarrow> shallowResolve h input T = Done (Inr (input, h))"
  by (simp add: shallowResolve_def)

lemma shallowResolve_heap:
  "shallowResolve h input T = Done (Inr (r, h')) \<Longrightarrow> h' = h"
  by (auto simp: shallowResolve_def split: if_splits outcome.splits)

lemma resolveArgs_shallow:
  "resolveArgs cv n False h ts args i = Done (vs, h') \<Longrightarrow> length ts = length args \<Longrightarrow>
   h' = h \<and> length vs = length args
   \<and> (\<forall>j < length args. \<exists>r. shallowResolve h (args ! j) (ts ! j) = Done (Inr (r, h))
          \<and> resolvedArg cv (i + j) r (ts ! j) = Inr (vs ! j))"
proof (induction args arbitrary: ts i vs)
  case Nil
  then show ?case by (cases ts) simp_all
next
  case (Cons arg args)
  from Cons.prems(2) obtain expectedType ts' where ts: "ts = expectedType # ts'"
    by (cases ts) simp_all
  note run = Cons.prems(1) [unfolded ts]
  from run obtain r hr where
    r: "shallowResolve h arg expectedType = Done (Inr (r, hr))"
    by (auto split: outcome.splits sum.splits prod.splits)
  then have hr: "hr = h" by (rule shallowResolve_heap)
  from run r obtain v where v: "resolvedArg cv i r expectedType = Inr v"
    by (auto split: outcome.splits sum.splits prod.splits)
  from run r v hr obtain vs' where
    rest: "resolveArgs cv n False h ts' args (Suc i) = Done (vs', h')" and vs: "vs = v # vs'"
    by (auto split: outcome.splits sum.splits prod.splits)
  from Cons.prems(2) ts have len: "length ts' = length args" by simp
  note ih = Cons.IH [OF rest len]
  show ?case
  proof (intro conjI allI impI)
    show "h' = h" using ih by simp
    show "length vs = length (arg # args)" using ih vs by simp
    fix j assume j: "j < length (arg # args)"
    show "\<exists>r. shallowResolve h ((arg # args) ! j) (ts ! j) = Done (Inr (r, h))
          \<and> resolvedArg cv (i + j) r (ts ! j) = Inr (vs ! j)"
    proof (cases j)
      case 0
      then show ?thesis using r v vs hr ts by simp
    next
      case (Suc k)
      with j have "k < length args" by simp
      with ih obtain r' where "shallowResolve h (args ! k) (ts' ! k) = Done (Inr (r', h))"
        and "resolvedArg cv (Suc i + k) r' (ts' ! k) = Inr (vs' ! k)" by blast
      then show ?thesis using Suc vs ts by simp
    qed
  qed
qed



text \<open>
  Claim C9. \<open>shallowResolve\<close> gives the zero value of the expected type for nil, the
  payload of a promise as it is (whatever the payload is, no descent), and every other
  argument unchanged, so promises inside it stay. In shallow mode the argument loop
  leaves the heap as it is, and each argument of the worker is the outcome of
  \<open>shallowResolve\<close> on the argument at the same position alone.
\<close>

theorem shallow_mode:
  "shallowResolve h VNil T = Done (Inr (Zero T, h))
   \<and> (deref h a = Some (VPromise U p) \<longrightarrow> Get p = Some v \<longrightarrow>
        shallowResolve h (VPtr (TPromise U) (Some a)) T = Done (Inr (v, h)))
   \<and> (input \<noteq> VNil \<longrightarrow> \<not> isPromise input \<longrightarrow> shallowResolve h input T = Done (Inr (input, h)))
   \<and> (resolveArgs cv n False h ts args i = Done (vs, h') \<longrightarrow> length ts = length args \<longrightarrow>
        h' = h \<and> length vs = length args
        \<and> (\<forall>j < length args. \<exists>r. shallowResolve h (args ! j) (ts ! j) = Done (Inr (r, h))
               \<and> resolvedArg cv (i + j) r (ts ! j) = Inr (vs ! j)))"
proof (intro conjI impI)
  show "shallowResolve h VNil T = Done (Inr (Zero T, h))"
    by (rule shallowResolve_nil)
next
  assume "deref h a = Some (VPromise U p)" and "Get p = Some v"
  then show "shallowResolve h (VPtr (TPromise U) (Some a)) T = Done (Inr (v, h))"
    by (rule shallowResolve_promise)
next
  assume "input \<noteq> VNil" and "\<not> isPromise input"
  then show "shallowResolve h input T = Done (Inr (input, h))"
    by (rule shallowResolve_other)
next
  assume run: "resolveArgs cv n False h ts args i = Done (vs, h')"
    and len: "length ts = length args"
  note all = resolveArgs_shallow [OF run len]
  from all show "h' = h" by simp
  from all show "length vs = length args" by simp
  from all show "\<forall>j < length args. \<exists>r. shallowResolve h (args ! j) (ts ! j) = Done (Inr (r, h))
               \<and> resolvedArg cv (i + j) r (ts ! j) = Inr (vs ! j)" by simp
qed

text \<open>
  C9 on a promise that holds a promise (the payload comes back unresolved), on a slice
  of promises (it comes back as it is), and on the arguments \<open>(P(7), 2)\<close>.
\<close>

theorem shallow_mode_witness:
  "deref [ready_promise TInterface (VPtr (TPromise TInt) (Some 1)), ready_promise TInt (VInt 7)] 0
     = Some (VPromise TInterface (Promise (VPtr (TPromise TInt) (Some 1)) ChClosed True))
   \<and> Get (Promise (VPtr (TPromise TInt) (Some 1)) ChClosed True) = Some (VPtr (TPromise TInt) (Some 1))
   \<and> shallowResolve [ready_promise TInterface (VPtr (TPromise TInt) (Some 1)), ready_promise TInt (VInt 7)]
        (VPtr (TPromise TInterface) (Some 0)) TInt
       = Done (Inr (VPtr (TPromise TInt) (Some 1),
           [ready_promise TInterface (VPtr (TPromise TInt) (Some 1)), ready_promise TInt (VInt 7)]))
   \<and> VSlice (TPtr (TPromise TInt)) (Some [VPtr (TPromise TInt) (Some 1)]) \<noteq> VNil
   \<and> \<not> isPromise (VSlice (TPtr (TPromise TInt)) (Some [VPtr (TPromise TInt) (Some 1)]))
   \<and> shallowResolve [ready_promise TInterface (VPtr (TPromise TInt) (Some 1)), ready_promise TInt (VInt 7)]
        (VSlice (TPtr (TPromise TInt)) (Some [VPtr (TPromise TInt) (Some 1)])) (TSlice TInt)
       = Done (Inr (VSlice (TPtr (TPromise TInt)) (Some [VPtr (TPromise TInt) (Some 1)]),
           [ready_promise TInterface (VPtr (TPromise TInt) (Some 1)), ready_promise TInt (VInt 7)]))
   \<and> resolveArgs identity_conv 0 False
        [ready_promise TInterface (VPtr (TPromise TInt) (Some 1)), ready_promise TInt (VInt 7)]
        [TInt, TInt] [VPtr (TPromise TInt) (Some 1), VInt 2] 0
       = Done ([VInt 7, VInt 2],
           [ready_promise TInterface (VPtr (TPromise TInt) (Some 1)), ready_promise TInt (VInt 7)])
   \<and> length [TInt, TInt] = length [VPtr (TPromise TInt) (Some 1), VInt 2]
   \<and> length [VInt 7, VInt 2] = length [VPtr (TPromise TInt) (Some 1), VInt 2]"
proof -
  let ?h = "[ready_promise TInterface (VPtr (TPromise TInt) (Some 1)), ready_promise TInt (VInt 7)]"
  let ?s = "VSlice (TPtr (TPromise TInt)) (Some [VPtr (TPromise TInt) (Some 1)])"
  note t = shallow_mode [where h = ?h and a = 0 and U = TInterface
      and p = "Promise (VPtr (TPromise TInt) (Some 1)) ChClosed True"
      and v = "VPtr (TPromise TInt) (Some 1)" and T = TInt and input = ?s
      and cv = identity_conv and n = 0 and ts = "[TInt, TInt]"
      and args = "[VPtr (TPromise TInt) (Some 1), VInt 2]" and i = 0
      and vs = "[VInt 7, VInt 2]" and h' = ?h]
  note u = shallow_mode [where h = ?h and a = 0 and U = TInterface
      and p = "Promise (VPtr (TPromise TInt) (Some 1)) ChClosed True"
      and v = "VPtr (TPromise TInt) (Some 1)" and T = "TSlice TInt" and input = ?s
      and cv = identity_conv and n = 0 and ts = "[TInt, TInt]"
      and args = "[VPtr (TPromise TInt) (Some 1), VInt 2]" and i = 0
      and vs = "[VInt 7, VInt 2]" and h' = ?h]
  have d: "deref ?h 0
     = Some (VPromise TInterface (Promise (VPtr (TPromise TInt) (Some 1)) ChClosed True))"
    by (simp add: deref_def ready_promise_def)
  have g: "Get (Promise (VPtr (TPromise TInt) (Some 1)) ChClosed True)
     = Some (VPtr (TPromise TInt) (Some 1))"
    by (simp add: Get_def)
  have s1: "?s \<noteq> VNil" and s2: "\<not> isPromise ?s" by simp_all
  have ra: "resolveArgs identity_conv 0 False ?h [TInt, TInt]
      [VPtr (TPromise TInt) (Some 1), VInt 2] 0 = Done ([VInt 7, VInt 2], ?h)"
    by (simp add: shallowResolve_def deref_def ready_promise_def Get_def resolvedArg_def
        AssignableTo_def)
  from t d g have a: "shallowResolve ?h (VPtr (TPromise TInterface) (Some 0)) TInt
       = Done (Inr (VPtr (TPromise TInt) (Some 1), ?h))" by blast
  from u s1 s2 have b: "shallowResolve ?h ?s (TSlice TInt) = Done (Inr (?s, ?h))" by blast
  from t ra have c: "length [VInt 7, VInt 2] = length [VPtr (TPromise TInt) (Some 1), VInt 2]"
    by simp
  from d g a s1 s2 b ra c show ?thesis by simp
qed

section \<open>Validation, and the goroutine of Async\<close>

lemma Sync_NotFunc: "Sync cv n T h (NotFunc v) args = Panic (NotAFunction AtSync)"
  by (simp add: Sync_def)

lemma Async_NotFunc: "Async T h (NotFunc v) args = Inl (NotAFunction AtAsync)"
  by (simp add: Async_def)

lemma Sync_count:
  "length (snd (stripFlag (NumIn fv) args)) \<noteq> NumIn fv \<Longrightarrow>
   Sync cv n T h (Func fv) args
     = Panic (ArgumentCount AtSync (NumIn fv) (length (snd (stripFlag (NumIn fv) args))))"
  by (simp add: Sync_def Let_def case_prod_beta)

lemma Async_count:
  "length (snd (stripFlag (NumIn fv) args)) \<noteq> NumIn fv \<Longrightarrow>
   Async T h (Func fv) args
     = Inl (ArgumentCount AtAsync (NumIn fv) (length (snd (stripFlag (NumIn fv) args))))"
  by (simp add: Async_def Let_def case_prod_beta)

lemma Sync_executes:
  "length (snd (stripFlag (NumIn fv) args)) = NumIn fv \<Longrightarrow>
   Sync cv n T h (Func fv) args
     = executeFunction cv n T h (Func fv) (fst (stripFlag (NumIn fv) args))
         (snd (stripFlag (NumIn fv) args))"
  by (simp add: Sync_def Let_def case_prod_beta)

lemma Async_spawns:
  "length (snd (stripFlag (NumIn fv) args)) = NumIn fv \<Longrightarrow>
   Async T h (Func fv) args
     = Inr (VPtr (TPromise T) (Some (length h)), h @ [VPromise T (NewPending (Zero T))],
            \<lparr>g_f = Func fv, g_recursive = fst (stripFlag (NumIn fv) args),
               g_args = snd (stripFlag (NumIn fv) args), g_p = length h\<rparr>)"
  by (simp add: Async_def Let_def alloc_def case_prod_beta)

lemma executeFunction_arity:
  "NumOut fv \<noteq> 1 \<Longrightarrow>
   executeFunction cv n T h (Func fv) recursive args = Panic (ReturnArity (NumOut fv))"
  by (simp add: executeFunction_def)

lemma run_goroutine_panic:
  "executeFunction cv n T h (g_f g) (g_recursive g) (g_args g) = Panic r \<Longrightarrow>
   run_goroutine cv n T h g = (Recovered, h, [r])"
  by (simp add: run_goroutine_def)

lemma pending_blocks:
  "get (h @ [VPromise T (NewPending z)]) (VPtr (TPromise T) (Some (length h))) = Blocks"
  by (simp add: deref_def NewPending_def Get_def)

text \<open>
  Claim C8, as the code has it. \<open>Sync\<close> and \<open>Async\<close> both panic at the call when \<open>f\<close>
  is not a function and when the number of arguments, after the flag is stripped, is not
  the number of parameters. The test for exactly one result is in \<open>executeFunction\<close>:
  \<open>Sync\<close> runs it inline and panics at the call; \<open>Async\<close> has already returned its
  pending promise when the goroutine runs it, the goroutine recovers the panic and prints
  it, and the promise stays pending.
\<close>

theorem validation_sites:
  "Sync cv n T h (NotFunc v) args = Panic (NotAFunction AtSync)
   \<and> Async T h (NotFunc v) args = Inl (NotAFunction AtAsync)
   \<and> (length (snd (stripFlag (NumIn fv) args)) \<noteq> NumIn fv \<longrightarrow>
        Sync cv n T h (Func fv) args
          = Panic (ArgumentCount AtSync (NumIn fv) (length (snd (stripFlag (NumIn fv) args))))
        \<and> Async T h (Func fv) args
          = Inl (ArgumentCount AtAsync (NumIn fv) (length (snd (stripFlag (NumIn fv) args)))))
   \<and> (length (snd (stripFlag (NumIn fv) args)) = NumIn fv \<longrightarrow> NumOut fv \<noteq> 1 \<longrightarrow>
        Sync cv n T h (Func fv) args = Panic (ReturnArity (NumOut fv))
        \<and> (\<exists>g. Async T h (Func fv) args
                  = Inr (VPtr (TPromise T) (Some (length h)),
                         h @ [VPromise T (NewPending (Zero T))], g)
              \<and> run_goroutine cv n T (h @ [VPromise T (NewPending (Zero T))]) g
                  = (Recovered, h @ [VPromise T (NewPending (Zero T))],
                     [ReturnArity (NumOut fv)])
              \<and> get (h @ [VPromise T (NewPending (Zero T))])
                   (VPtr (TPromise T) (Some (length h))) = Blocks))"
proof (intro conjI impI)
  show "Sync cv n T h (NotFunc v) args = Panic (NotAFunction AtSync)"
    by (rule Sync_NotFunc)
  show "Async T h (NotFunc v) args = Inl (NotAFunction AtAsync)"
    by (rule Async_NotFunc)
next
  assume ne: "length (snd (stripFlag (NumIn fv) args)) \<noteq> NumIn fv"
  then show "Sync cv n T h (Func fv) args
          = Panic (ArgumentCount AtSync (NumIn fv) (length (snd (stripFlag (NumIn fv) args))))"
    by (rule Sync_count)
  from ne show "Async T h (Func fv) args
          = Inl (ArgumentCount AtAsync (NumIn fv) (length (snd (stripFlag (NumIn fv) args))))"
    by (rule Async_count)
next
  assume eq: "length (snd (stripFlag (NumIn fv) args)) = NumIn fv" and out: "NumOut fv \<noteq> 1"
  show "Sync cv n T h (Func fv) args = Panic (ReturnArity (NumOut fv))"
    by (simp add: Sync_executes [OF eq] executeFunction_arity [OF out])
  let ?g = "\<lparr>g_f = Func fv, g_recursive = fst (stripFlag (NumIn fv) args),
               g_args = snd (stripFlag (NumIn fv) args), g_p = length h\<rparr>"
  let ?h1 = "h @ [VPromise T (NewPending (Zero T))]"
  have a: "Async T h (Func fv) args = Inr (VPtr (TPromise T) (Some (length h)), ?h1, ?g)"
    by (rule Async_spawns [OF eq])
  have "executeFunction cv n T ?h1 (g_f ?g) (g_recursive ?g) (g_args ?g)
      = Panic (ReturnArity (NumOut fv))"
    by (simp add: executeFunction_arity [OF out])
  then have b: "run_goroutine cv n T ?h1 ?g = (Recovered, ?h1, [ReturnArity (NumOut fv)])"
    by (rule run_goroutine_panic)
  have c: "get ?h1 (VPtr (TPromise T) (Some (length h))) = Blocks"
    by (rule pending_blocks)
  from a b c show "\<exists>g. Async T h (Func fv) args
                  = Inr (VPtr (TPromise T) (Some (length h)), ?h1, g)
              \<and> run_goroutine cv n T ?h1 g = (Recovered, ?h1, [ReturnArity (NumOut fv)])
              \<and> get ?h1 (VPtr (TPromise T) (Some (length h))) = Blocks"
    by blast
qed

text \<open>
  C8 as stated: \<open>Async\<close> on a function with two results does not panic at the call. It
  returns a pending promise; the panic for the number of results comes up in the
  goroutine.
\<close>

theorem async_arity_counterexample:
  "NumOut Two \<noteq> 1
   \<and> Async TInt [] (Func Two) []
       = Inr (VPtr (TPromise TInt) (Some 0), [VPromise TInt (Promise (VInt 0) ChOpen False)],
              \<lparr>g_f = Func Two, g_recursive = False, g_args = [], g_p = 0\<rparr>)
   \<and> Async TInt [] (Func Two) [] \<noteq> Inl (ReturnArity 2)
   \<and> run_goroutine identity_conv 0 TInt [VPromise TInt (Promise (VInt 0) ChOpen False)]
        \<lparr>g_f = Func Two, g_recursive = False, g_args = [], g_p = 0\<rparr>
       = (Recovered, [VPromise TInt (Promise (VInt 0) ChOpen False)], [ReturnArity 2])"
  by (simp add: Two_def Async_def NumIn_def stripFlag_def alloc_def NewPending_def
      run_goroutine_def executeFunction_def)

text \<open>C8 on \<open>Boom(1, 2)\<close> (one argument too many) and on \<open>Two\<close> under \<open>Sync\<close>.\<close>

theorem validation_sites_witness:
  "length (snd (stripFlag (NumIn Boom) [VInt 1, VInt 2])) \<noteq> NumIn Boom
   \<and> Sync identity_conv 0 TInt [] (Func Boom) [VInt 1, VInt 2]
       = Panic (ArgumentCount AtSync 1 2)
   \<and> Async TInt [] (Func Boom) [VInt 1, VInt 2] = Inl (ArgumentCount AtAsync 1 2)
   \<and> length (snd (stripFlag (NumIn Two) [VBool True])) = NumIn Two
   \<and> NumOut Two \<noteq> 1
   \<and> Sync identity_conv 0 TInt [] (Func Two) [VBool True] = Panic (ReturnArity 2)"
proof -
  note t = validation_sites [where fv = Boom and args = "[VInt 1, VInt 2]" and cv = identity_conv
      and n = 0 and T = TInt and h = "[]" and v = VNil]
  note u = validation_sites [where fv = Two and args = "[VBool True]" and cv = identity_conv
      and n = 0 and T = TInt and h = "[]" and v = VNil]
  have a: "length (snd (stripFlag (NumIn Boom) [VInt 1, VInt 2])) \<noteq> NumIn Boom"
    by (simp add: stripFlag_def NumIn_def Boom_def)
  have b: "length (snd (stripFlag (NumIn Two) [VBool True])) = NumIn Two"
    and c: "NumOut Two \<noteq> 1"
    by (simp_all add: stripFlag_def NumIn_def Two_def)
  from t a have d: "Sync identity_conv 0 TInt [] (Func Boom) [VInt 1, VInt 2]
       = Panic (ArgumentCount AtSync 1 2)
     \<and> Async TInt [] (Func Boom) [VInt 1, VInt 2] = Inl (ArgumentCount AtAsync 1 2)"
    by (simp add: stripFlag_def NumIn_def Boom_def)
  from u b c have e: "Sync identity_conv 0 TInt [] (Func Two) [VBool True] = Panic (ReturnArity 2)"
    by (simp add: Two_def)
  from a b c d e show ?thesis by simp
qed

lemma Async_Inr:
  assumes "Async T h (Func fv) args = Inr (ptr, h1, g)"
  shows "length (snd (stripFlag (NumIn fv) args)) = NumIn fv"
    and "ptr = VPtr (TPromise T) (Some (length h))"
    and "h1 = h @ [VPromise T (NewPending (Zero T))]"
    and "g = \<lparr>g_f = Func fv, g_recursive = fst (stripFlag (NumIn fv) args),
               g_args = snd (stripFlag (NumIn fv) args), g_p = length h\<rparr>"
proof -
  show len: "length (snd (stripFlag (NumIn fv) args)) = NumIn fv"
  proof (rule ccontr)
    assume "length (snd (stripFlag (NumIn fv) args)) \<noteq> NumIn fv"
    from Async_count [OF this] assms show False by simp
  qed
  from Async_spawns [OF len] assms
  show "ptr = VPtr (TPromise T) (Some (length h))"
    and "h1 = h @ [VPromise T (NewPending (Zero T))]"
    and "g = \<lparr>g_f = Func fv, g_recursive = fst (stripFlag (NumIn fv) args),
               g_args = snd (stripFlag (NumIn fv) args), g_p = length h\<rparr>"
    by simp_all
qed

lemma executeFunction_worker_panic:
  assumes "NumOut fv = 1" and "NumIn fv = length args"
    and "resolveArgs cv n recursive h (In fv) args 0 = Done (vs, h2)"
    and "Call fv h2 vs = (Panics msg, cells)"
  shows "executeFunction cv n T h (Func fv) recursive args = Panic (WorkerPanic msg)"
  using assms by (simp add: executeFunction_def)

text \<open>
  Claim C4. \<open>Async\<close> has returned the promise \<open>ptr\<close>; in the goroutine the arguments
  resolve and the worker panics. Then the goroutine ends by recovering: it prints the
  panic value and nothing else, it leaves the heap as it was, so it never reaches
  \<open>p.resolve\<close>, and the promise is still pending: \<open>Get\<close> on it blocks.
\<close>

theorem worker_panic_leaves_pending:
  assumes spawn: "Async T h (Func fv) args = Inr (ptr, h1, g)"
    and out: "NumOut fv = 1"
    and resolved: "resolveArgs cv n (g_recursive g) h1 (In fv) (g_args g) 0 = Done (vs, h2)"
    and boom: "Call fv h2 vs = (Panics msg, cells)"
  shows "run_goroutine cv n T h1 g = (Recovered, h1, [WorkerPanic msg])
       \<and> get h1 ptr = Blocks
       \<and> (\<exists>pr. deref h1 (g_p g) = Some (VPromise T pr) \<and> Get pr = None)"
proof -
  note parts = Async_Inr [OF spawn]
  from parts(4) have f: "g_f g = Func fv" and p: "g_p g = length h"
    and a: "g_args g = snd (stripFlag (NumIn fv) args)" by simp_all
  from parts(1) a have len: "NumIn fv = length (g_args g)" by simp
  have "executeFunction cv n T h1 (Func fv) (g_recursive g) (g_args g) = Panic (WorkerPanic msg)"
    by (rule executeFunction_worker_panic [OF out len resolved boom])
  with f have "executeFunction cv n T h1 (g_f g) (g_recursive g) (g_args g)
      = Panic (WorkerPanic msg)" by simp
  then have r: "run_goroutine cv n T h1 g = (Recovered, h1, [WorkerPanic msg])"
    by (rule run_goroutine_panic)
  have b: "get h1 ptr = Blocks"
    unfolding parts(2) parts(3) by (rule pending_blocks)
  have d: "deref h1 (g_p g) = Some (VPromise T (NewPending (Zero T)))"
    by (simp add: parts(3) p deref_def)
  have e: "Get (NewPending (Zero T)) = None"
    by (simp add: NewPending_def Get_def)
  from r b d e show ?thesis by blast
qed

text \<open>C4 on \<open>Async[int](Boom, 3)\<close>.\<close>

theorem worker_panic_leaves_pending_witness:
  "Async TInt [] (Func Boom) [VInt 3]
     = Inr (VPtr (TPromise TInt) (Some 0), [VPromise TInt (Promise (VInt 0) ChOpen False)],
            \<lparr>g_f = Func Boom, g_recursive = False, g_args = [VInt 3], g_p = 0\<rparr>)
   \<and> NumOut Boom = 1
   \<and> resolveArgs identity_conv 0 False [VPromise TInt (Promise (VInt 0) ChOpen False)]
        (In Boom) [VInt 3] 0
       = Done ([VInt 3], [VPromise TInt (Promise (VInt 0) ChOpen False)])
   \<and> Call Boom [VPromise TInt (Promise (VInt 0) ChOpen False)] [VInt 3] = (Panics ''boom'', [])
   \<and> run_goroutine identity_conv 0 TInt [VPromise TInt (Promise (VInt 0) ChOpen False)]
        \<lparr>g_f = Func Boom, g_recursive = False, g_args = [VInt 3], g_p = 0\<rparr>
       = (Recovered, [VPromise TInt (Promise (VInt 0) ChOpen False)], [WorkerPanic ''boom''])
   \<and> get [VPromise TInt (Promise (VInt 0) ChOpen False)] (VPtr (TPromise TInt) (Some 0)) = Blocks"
proof -
  let ?h1 = "[VPromise TInt (Promise (VInt 0) ChOpen False)]"
  let ?g = "\<lparr>g_f = Func Boom, g_recursive = False, g_args = [VInt 3], g_p = 0\<rparr>"
  have a: "Async TInt [] (Func Boom) [VInt 3] = Inr (VPtr (TPromise TInt) (Some 0), ?h1, ?g)"
    by (simp add: Async_def Boom_def NumIn_def stripFlag_def alloc_def NewPending_def)
  have b: "NumOut Boom = 1"
    by (simp add: Boom_def)
  have c: "resolveArgs identity_conv 0 (g_recursive ?g) ?h1 (In Boom) (g_args ?g) 0
      = Done ([VInt 3], ?h1)"
    by (simp add: Boom_def shallowResolve_def resolvedArg_def AssignableTo_def)
  have d: "Call Boom ?h1 [VInt 3] = (Panics ''boom'', [])"
    by (simp add: Boom_def)
  from worker_panic_leaves_pending [OF a b c d]
  have "run_goroutine identity_conv 0 TInt ?h1 ?g = (Recovered, ?h1, [WorkerPanic ''boom''])
      \<and> get ?h1 (VPtr (TPromise TInt) (Some 0)) = Blocks"
    by blast
  with a b c d show ?thesis by simp
qed

section \<open>Recursive resolution\<close>

text \<open>The cases of \<open>resolveValue\<close> by expected type, for an input past the first two tests.\<close>

lemma resolveValue_ptr:
  "input \<noteq> VNil \<Longrightarrow> \<not> isPromise input \<Longrightarrow>
   resolveValue cv (Suc n) h input (TPtr t) =
     (if KindOf input \<noteq> KPtr then Done (Inl (ExpectedPointer (TPtr t) (TypeOf input)))
      else if IsNil input then Done (Inr (VPtr t None, h))
      else
        (case target input of
           None \<Rightarrow> Panic InvalidAddress
         | Some a \<Rightarrow>
        (case deref h a of
           None \<Rightarrow> Panic InvalidAddress
         | Some pointee \<Rightarrow>
        (case resolveValue cv n h pointee t of
           Done (Inl err) \<Rightarrow> Done (Inl err)
         | Done (Inr (resolvedElem, h1)) \<Rightarrow>
             (case Set_panics t resolvedElem of
                Some p \<Rightarrow> Panic p
              | None \<Rightarrow> Done (Inr (VPtr t (Some (length h1)), h1 @ [resolvedElem])))
         | other \<Rightarrow> other))))"
  by (simp add: resolveValue.simps alloc_def
      cong: option.case_cong outcome.case_cong sum.case_cong)

lemma resolveValue_slice:
  "input \<noteq> VNil \<Longrightarrow> \<not> isPromise input \<Longrightarrow>
   resolveValue cv (Suc n) h input (TSlice et) =
     (if KindOf input \<noteq> KSlice then Done (Inl (ExpectedSlice (KindOf input)))
      else
        (case resolveElems (\<lambda>h' x. resolveValue cv n h' x et) SliceElement et h
                (elems input) 0 of
           Done (Inr (newSlice, h1)) \<Rightarrow> Done (Inr (VSlice et (Some newSlice), h1))
         | Done (Inl err) \<Rightarrow> Done (Inl err)
         | Panic p \<Rightarrow> Panic p
         | Blocks \<Rightarrow> Blocks
         | OutOfFuel \<Rightarrow> OutOfFuel))"
  by (simp add: resolveValue.simps)

lemma resolveValue_map:
  "input \<noteq> VNil \<Longrightarrow> \<not> isPromise input \<Longrightarrow>
   resolveValue cv (Suc n) h input (TMap kt vt) =
     (if KindOf input \<noteq> KMap then Done (Inl (ExpectedMap (KindOf input)))
      else
        (case resolveEntries (\<lambda>h' x t. resolveValue cv n h' x t) kt vt h
                (entries input) [] of
           Done (Inr (newMap, h1)) \<Rightarrow> Done (Inr (VMap kt vt (Some newMap), h1))
         | Done (Inl err) \<Rightarrow> Done (Inl err)
         | Panic p \<Rightarrow> Panic p
         | Blocks \<Rightarrow> Blocks
         | OutOfFuel \<Rightarrow> OutOfFuel))"
  by (simp add: resolveValue.simps)

lemma resolveValue_interface:
  "input \<noteq> VNil \<Longrightarrow> \<not> isPromise input \<Longrightarrow>
   resolveValue cv (Suc n) h input TInterface = Done (Inr (input, h))"
  by (simp add: resolveValue.simps)

lemma resolveValue_basic:
  "input \<noteq> VNil \<Longrightarrow> \<not> isPromise input \<Longrightarrow>
   T = TBool \<or> T = TInt \<or> T = TString \<or> (\<exists>U. T = TPromise U) \<Longrightarrow>
   resolveValue cv (Suc n) h input T =
     (if AssignableTo (TypeOf input) T then Done (Inr (input, h))
      else if ConvertibleTo cv (TypeOf input) T then Done (Inr (Convert cv input T, h))
      else Done (Inl (CannotAssignOrConvert (TypeOf input) T)))"
  by (auto simp: resolveValue.simps)

text \<open>
  More fuel does not change an outcome: every case hands \<open>OutOfFuel\<close> up, so a run that
  ends otherwise never met the bound.
\<close>

lemma resolveElems_mono:
  assumes "\<And>h x. rv h x \<noteq> OutOfFuel \<Longrightarrow> rv' h x = rv h x"
  shows "resolveElems rv wrap et h xs i \<noteq> OutOfFuel \<Longrightarrow>
         resolveElems rv' wrap et h xs i = resolveElems rv wrap et h xs i"
proof (induction xs arbitrary: h i)
  case Nil
  then show ?case by simp
next
  case (Cons x xs)
  from Cons.prems have ne: "rv h x \<noteq> OutOfFuel"
    by (auto split: outcome.splits)
  note eq = assms [OF ne]
  show ?case
  proof (cases "rv h x")
    case (Done d)
    show ?thesis
    proof (cases d)
      case (Inl e)
      with Done eq show ?thesis by simp
    next
      case (Inr rh)
      obtain r h1 where rh: "rh = (r, h1)" by (cases rh)
      show ?thesis
      proof (cases "Set_panics et r")
        case None
        from Cons.prems Done Inr rh None
        have "resolveElems rv wrap et h1 xs (Suc i) \<noteq> OutOfFuel"
          by (auto split: outcome.splits)
        from Cons.IH [OF this] Done Inr rh None eq show ?thesis by simp
      next
        case (Some p)
        with Done Inr rh eq show ?thesis by simp
      qed
    qed
  qed (use eq in simp_all)
qed

lemma resolveEntries_mono:
  assumes "\<And>h x t. rv h x t \<noteq> OutOfFuel \<Longrightarrow> rv' h x t = rv h x t"
  shows "resolveEntries rv kt vt h kvs acc \<noteq> OutOfFuel \<Longrightarrow>
         resolveEntries rv' kt vt h kvs acc = resolveEntries rv kt vt h kvs acc"
proof (induction kvs arbitrary: h acc)
  case Nil
  then show ?case by simp
next
  case (Cons kv kvs)
  obtain k v where kv: "kv = (k, v)" by (cases kv)
  from Cons.prems kv have ne: "rv h k kt \<noteq> OutOfFuel"
    by (auto split: outcome.splits)
  note eq = assms [OF ne]
  show ?case
  proof (cases "rv h k kt")
    case (Done d)
    show ?thesis
    proof (cases d)
      case (Inl e)
      with Done eq kv show ?thesis by simp
    next
      case (Inr rh)
      obtain rk h1 where rh: "rh = (rk, h1)" by (cases rh)
      from Cons.prems kv Done Inr rh have ne2: "rv h1 v vt \<noteq> OutOfFuel"
        by (auto split: outcome.splits)
      note eq2 = assms [OF ne2]
      show ?thesis
      proof (cases "rv h1 v vt")
        case D2: (Done d2)
        show ?thesis
        proof (cases d2)
          case (Inl e)
          with Done Inr rh D2 eq eq2 kv show ?thesis by simp
        next
          case I2: (Inr rh2)
          obtain rv2 h2 where rh2: "rh2 = (rv2, h2)" by (cases rh2)
          show ?thesis
          proof (cases "SetMapIndex kt vt acc rk rv2")
            case (Inl p)
            with Done Inr rh D2 I2 rh2 eq eq2 kv show ?thesis by simp
          next
            case S: (Inr acc')
            from Cons.prems kv Done Inr rh D2 I2 rh2 S
            have "resolveEntries rv kt vt h2 kvs acc' \<noteq> OutOfFuel" by simp
            from Cons.IH [OF this] Done Inr rh D2 I2 rh2 S eq eq2 kv show ?thesis by simp
          qed
        qed
      qed (use Done Inr rh eq eq2 kv in simp_all)
    qed
  qed (use eq kv in simp_all)
qed

lemma resolveValue_Suc:
  "resolveValue cv n h v T \<noteq> OutOfFuel \<Longrightarrow>
   resolveValue cv (Suc n) h v T = resolveValue cv n h v T"
proof (induction n arbitrary: h v T)
  case 0
  then show ?case by (simp add: resolveValue.simps)
next
  case (Suc n)
  note IH = Suc.IH
  note run = Suc.prems
  show ?case
  proof (cases "v = VNil")
    case True
    then show ?thesis by (simp add: resolveValue_nil)
  next
    case nn: False
    show ?thesis
    proof (cases "isPromise v")
      case True
      note unfold = resolveValue_promise [OF True]
      show ?thesis
      proof (cases "get h v")
        case (Done payload)
        with run unfold have "resolveValue cv n h payload T \<noteq> OutOfFuel" by simp
        from IH [OF this] Done unfold show ?thesis by simp
      qed (simp_all add: unfold)
    next
      case np: False
      show ?thesis
      proof (cases T)
        case (TPtr t)
        note unfold = resolveValue_ptr [OF nn np]
        show ?thesis
        proof (cases "KindOf v = KPtr \<and> \<not> IsNil v")
          case False
          then show ?thesis unfolding TPtr unfold by auto
        next
          case True
          show ?thesis
          proof (cases "target v")
            case None
            then show ?thesis unfolding TPtr unfold by simp
          next
            case (Some a)
            show ?thesis
            proof (cases "deref h a")
              case None
              with Some show ?thesis unfolding TPtr unfold by simp
            next
              case D: (Some pointee)
              from run True Some D have "resolveValue cv n h pointee t \<noteq> OutOfFuel"
                unfolding TPtr unfold by (auto split: outcome.splits)
              from IH [OF this] True Some D show ?thesis
                unfolding TPtr unfold by simp
            qed
          qed
        qed
      next
        case (TSlice et)
        note unfold = resolveValue_slice [OF nn np]
        show ?thesis
        proof (cases "KindOf v = KSlice")
          case False
          then show ?thesis unfolding TSlice unfold by simp
        next
          case True
          from run True
          have "resolveElems (\<lambda>h' x. resolveValue cv n h' x et) SliceElement et h (elems v) 0
              \<noteq> OutOfFuel"
            unfolding TSlice unfold by (auto split: outcome.splits)
          from resolveElems_mono [where rv' = "\<lambda>h' x. resolveValue cv (Suc n) h' x et", OF _ this] IH
          show ?thesis unfolding TSlice unfold by simp
        qed
      next
        case (TArray len et)
        note unfold = resolveValue_array [OF nn np]
        show ?thesis
        proof (cases "KindOf v = KArray \<and> length (elems v) = len")
          case False
          then show ?thesis unfolding TArray unfold by auto
        next
          case True
          from run True
          have "resolveElems (\<lambda>h' x. resolveValue cv n h' x et) ArrayElement et h (elems v) 0
              \<noteq> OutOfFuel"
            unfolding TArray unfold by (auto split: outcome.splits)
          from resolveElems_mono [where rv' = "\<lambda>h' x. resolveValue cv (Suc n) h' x et", OF _ this] IH
          show ?thesis unfolding TArray unfold by simp
        qed
      next
        case (TMap kt vt)
        note unfold = resolveValue_map [OF nn np]
        show ?thesis
        proof (cases "KindOf v = KMap")
          case False
          then show ?thesis unfolding TMap unfold by simp
        next
          case True
          from run True
          have "resolveEntries (\<lambda>h' x t. resolveValue cv n h' x t) kt vt h (entries v) []
              \<noteq> OutOfFuel"
            unfolding TMap unfold by (auto split: outcome.splits)
          from resolveEntries_mono [where rv' = "\<lambda>h' x t. resolveValue cv (Suc n) h' x t", OF _ this] IH
          show ?thesis unfolding TMap unfold by simp
        qed
      next
        case TInterface
        then show ?thesis by (simp add: resolveValue_interface [OF nn np])
      qed (simp_all add: resolveValue_basic [OF nn np])
    qed
  qed
qed

lemma resolveValue_mono:
  "resolveValue cv n h v T \<noteq> OutOfFuel \<Longrightarrow>
   resolveValue cv (n + k) h v T = resolveValue cv n h v T"
proof (induction k)
  case 0
  then show ?case by simp
next
  case (Suc k)
  then have "resolveValue cv (n + k) h v T \<noteq> OutOfFuel" by simp
  from resolveValue_Suc [OF this] Suc show ?case by simp
qed



lemma resolveValue_ready:
  "isPromise input \<Longrightarrow> get h input = Done payload \<Longrightarrow>
   resolveValue cv (Suc n) h input T = resolveValue cv n h payload T"
  by (simp add: resolveValue_promise)

lemma resolveValue_pending:
  "isPromise input \<Longrightarrow> get h input = Blocks \<Longrightarrow> resolveValue cv (Suc n) h input T = Blocks"
  by (simp add: resolveValue_promise)

lemma resolveValue_nested:
  "nested h k input v \<Longrightarrow> resolveValue cv (k + n) h input T = resolveValue cv n h v T"
proof (induction k arbitrary: input)
  case 0
  then show ?case by simp
next
  case (Suc k)
  from Suc.prems obtain payload where p: "isPromise input" and g: "get h input = Done payload"
    and rest: "nested h k payload v"
    by (auto split: outcome.splits)
  from resolveValue_ready [OF p g] Suc.IH [OF rest] show ?case by simp
qed

text \<open>
  Claim C3. On a promise the resolver calls \<open>get\<close>: it blocks while the promise is
  pending, and on a ready promise it resolves the payload against the same expected type.
  So a chain of \<open>k\<close> nested promises around \<open>v\<close> resolves to what \<open>v\<close> resolves to, and
  every bound on the depth from \<open>k\<close> plus what \<open>v\<close> needs on gives that result.
\<close>

theorem transitive_resolution:
  "(isPromise input \<longrightarrow> get h input = Done payload \<longrightarrow>
      resolveValue cv (Suc n) h input T = resolveValue cv n h payload T)
   \<and> (isPromise input \<longrightarrow> get h input = Blocks \<longrightarrow>
      resolveValue cv (Suc n) h input T = Blocks)
   \<and> (nested h k input v \<longrightarrow>
      resolveValue cv (k + n) h input T = resolveValue cv n h v T
      \<and> (resolveValue cv n h v T \<noteq> OutOfFuel \<longrightarrow>
           (\<forall>m \<ge> k + n. resolveValue cv m h input T = resolveValue cv n h v T)))"
proof (intro conjI impI allI)
  assume "isPromise input" and "get h input = Done payload"
  then show "resolveValue cv (Suc n) h input T = resolveValue cv n h payload T"
    by (rule resolveValue_ready)
next
  assume "isPromise input" and "get h input = Blocks"
  then show "resolveValue cv (Suc n) h input T = Blocks"
    by (rule resolveValue_pending)
next
  assume chain: "nested h k input v"
  then show eq: "resolveValue cv (k + n) h input T = resolveValue cv n h v T"
    by (rule resolveValue_nested)
  fix m
  assume ne: "resolveValue cv n h v T \<noteq> OutOfFuel" and m: "k + n \<le> m"
  from ne eq have "resolveValue cv (k + n) h input T \<noteq> OutOfFuel" by simp
  from resolveValue_mono [OF this, of "m - (k + n)"] m eq
  show "resolveValue cv m h input T = resolveValue cv n h v T" by simp
qed

text \<open>C3 on a promise that holds a promise that holds 7, and on a pending promise.\<close>

theorem transitive_resolution_witness:
  "isPromise (VPtr (TPromise TInterface) (Some 0))
   \<and> get [ready_promise TInterface (VPtr (TPromise TInt) (Some 1)), ready_promise TInt (VInt 7)]
        (VPtr (TPromise TInterface) (Some 0)) = Done (VPtr (TPromise TInt) (Some 1))
   \<and> nested [ready_promise TInterface (VPtr (TPromise TInt) (Some 1)), ready_promise TInt (VInt 7)]
        2 (VPtr (TPromise TInterface) (Some 0)) (VInt 7)
   \<and> resolveValue identity_conv 1
        [ready_promise TInterface (VPtr (TPromise TInt) (Some 1)), ready_promise TInt (VInt 7)]
        (VInt 7) TInt
       = Done (Inr (VInt 7,
           [ready_promise TInterface (VPtr (TPromise TInt) (Some 1)), ready_promise TInt (VInt 7)]))
   \<and> resolveValue identity_conv 5
        [ready_promise TInterface (VPtr (TPromise TInt) (Some 1)), ready_promise TInt (VInt 7)]
        (VPtr (TPromise TInterface) (Some 0)) TInt
       = Done (Inr (VInt 7,
           [ready_promise TInterface (VPtr (TPromise TInt) (Some 1)), ready_promise TInt (VInt 7)]))
   \<and> get [VPromise TInt (NewPending (VInt 0))] (VPtr (TPromise TInt) (Some 0)) = Blocks
   \<and> resolveValue identity_conv 1 [VPromise TInt (NewPending (VInt 0))]
        (VPtr (TPromise TInt) (Some 0)) TInt = Blocks"
proof -
  let ?h = "[ready_promise TInterface (VPtr (TPromise TInt) (Some 1)), ready_promise TInt (VInt 7)]"
  let ?p = "VPtr (TPromise TInterface) (Some 0)"
  let ?q = "[VPromise TInt (NewPending (VInt 0))]"
  note t = transitive_resolution [where input = ?p and h = ?h
      and payload = "VPtr (TPromise TInt) (Some 1)" and cv = identity_conv and n = 1
      and T = TInt and k = 2 and v = "VInt 7"]
  note u = transitive_resolution [where input = "VPtr (TPromise TInt) (Some 0)" and h = ?q
      and payload = VNil and cv = identity_conv and n = 0 and T = TInt and k = 0 and v = VNil]
  have a: "isPromise ?p" by simp
  have b: "get ?h ?p = Done (VPtr (TPromise TInt) (Some 1))"
    by (simp add: deref_def ready_promise_def Get_def)
  have c: "nested ?h 2 ?p (VInt 7)"
    by (simp add: numeral_2_eq_2 deref_def ready_promise_def Get_def)
  have d: "resolveValue identity_conv 1 ?h (VInt 7) TInt = Done (Inr (VInt 7, ?h))"
    by (simp add: resolveValue.simps AssignableTo_def)
  from t c d have "\<forall>m \<ge> 2 + 1. resolveValue identity_conv m ?h ?p TInt
      = resolveValue identity_conv 1 ?h (VInt 7) TInt" by simp
  then have "resolveValue identity_conv 5 ?h ?p TInt
      = resolveValue identity_conv 1 ?h (VInt 7) TInt" by simp
  with d have e: "resolveValue identity_conv 5 ?h ?p TInt = Done (Inr (VInt 7, ?h))" by simp
  have f: "get ?q (VPtr (TPromise TInt) (Some 0)) = Blocks"
    by (simp add: deref_def NewPending_def Get_def)
  from u f have g: "resolveValue identity_conv 1 ?q (VPtr (TPromise TInt) (Some 0)) TInt = Blocks"
    by simp
  from a b c d e f g show ?thesis by simp
qed

section \<open>Containers and pointers\<close>

text \<open>The resolver only allocates: the heap it returns extends the heap it was given.\<close>

lemma resolveElems_extends:
  assumes "\<And>h x r h'. rv h x = Done (Inr (r, h')) \<Longrightarrow> \<exists>ext. h' = h @ ext"
  shows "resolveElems rv wrap et h xs i = Done (Inr (rs, h')) \<Longrightarrow> \<exists>ext. h' = h @ ext"
proof (induction xs arbitrary: h i rs)
  case Nil
  then show ?case by simp
next
  case (Cons x xs)
  from Cons.prems obtain r h1 rs' where
    r: "rv h x = Done (Inr (r, h1))"
    and rest: "resolveElems rv wrap et h1 xs (Suc i) = Done (Inr (rs', h'))"
    by (auto split: outcome.splits sum.splits prod.splits option.splits)
  from assms [OF r] obtain e1 where "h1 = h @ e1" by blast
  moreover from Cons.IH [OF rest] obtain e2 where "h' = h1 @ e2" by blast
  ultimately show ?case by simp
qed

lemma resolveEntries_extends:
  assumes "\<And>h x t r h'. rv h x t = Done (Inr (r, h')) \<Longrightarrow> \<exists>ext. h' = h @ ext"
  shows "resolveEntries rv kt vt h kvs acc = Done (Inr (m, h')) \<Longrightarrow> \<exists>ext. h' = h @ ext"
proof (induction kvs arbitrary: h acc)
  case Nil
  then show ?case by simp
next
  case (Cons kv kvs)
  obtain k v where kv: "kv = (k, v)" by (cases kv)
  from Cons.prems kv obtain rk h1 rv2 h2 acc' where
    r1: "rv h k kt = Done (Inr (rk, h1))"
    and r2: "rv h1 v vt = Done (Inr (rv2, h2))"
    and rest: "resolveEntries rv kt vt h2 kvs acc' = Done (Inr (m, h'))"
    by (auto split: outcome.splits sum.splits prod.splits)
  from assms [OF r1] obtain e1 where "h1 = h @ e1" by blast
  moreover from assms [OF r2] obtain e2 where "h2 = h1 @ e2" by blast
  moreover from Cons.IH [OF rest] obtain e3 where "h' = h2 @ e3" by blast
  ultimately show ?case by simp
qed

lemma resolveValue_extends:
  "resolveValue cv n h v T = Done (Inr (r, h')) \<Longrightarrow> \<exists>ext. h' = h @ ext"
proof (induction n arbitrary: h v T r h')
  case 0
  then show ?case by (simp add: resolveValue.simps)
next
  case (Suc n)
  note IH = Suc.IH
  note run = Suc.prems
  show ?case
  proof (cases "v = VNil")
    case True
    with run show ?thesis by (simp add: resolveValue_nil)
  next
    case nn: False
    show ?thesis
    proof (cases "isPromise v")
      case True
      from run obtain payload where "resolveValue cv n h payload T = Done (Inr (r, h'))"
        unfolding resolveValue_promise [OF True] by (auto split: outcome.splits)
      then show ?thesis by (rule IH)
    next
      case np: False
      show ?thesis
      proof (cases T)
        case (TPtr t)
        from run have
          "h' = h \<or> (\<exists>pointee r1 h1. resolveValue cv n h pointee t = Done (Inr (r1, h1))
                       \<and> h' = h1 @ [r1])"
          unfolding TPtr resolveValue_ptr [OF nn np]
          by (auto split: if_splits option.splits outcome.splits sum.splits prod.splits)
        then show ?thesis
        proof
          assume "h' = h"
          then show ?thesis by simp
        next
          assume "\<exists>pointee r1 h1. resolveValue cv n h pointee t = Done (Inr (r1, h1))
                       \<and> h' = h1 @ [r1]"
          then obtain pointee r1 h1 where
            "resolveValue cv n h pointee t = Done (Inr (r1, h1))" and h': "h' = h1 @ [r1]"
            by blast
          from IH [OF this(1)] obtain e where "h1 = h @ e" by blast
          with h' show ?thesis by simp
        qed
      next
        case (TSlice et)
        from run obtain rs where
          "resolveElems (\<lambda>h' x. resolveValue cv n h' x et) SliceElement et h (elems v) 0
             = Done (Inr (rs, h'))"
          unfolding TSlice resolveValue_slice [OF nn np]
          by (auto split: if_splits outcome.splits sum.splits prod.splits)
        from resolveElems_extends [OF _ this] IH show ?thesis by blast
      next
        case (TArray len et)
        from run obtain rs where
          "resolveElems (\<lambda>h' x. resolveValue cv n h' x et) ArrayElement et h (elems v) 0
             = Done (Inr (rs, h'))"
          unfolding TArray resolveValue_array [OF nn np]
          by (auto split: if_splits outcome.splits sum.splits prod.splits)
        from resolveElems_extends [OF _ this] IH show ?thesis by blast
      next
        case (TMap kt vt)
        from run obtain m where
          "resolveEntries (\<lambda>h' x t. resolveValue cv n h' x t) kt vt h (entries v) []
             = Done (Inr (m, h'))"
          unfolding TMap resolveValue_map [OF nn np]
          by (auto split: if_splits outcome.splits sum.splits prod.splits)
        from resolveEntries_extends [OF _ this] IH show ?thesis by blast
      next
        case TInterface
        with run show ?thesis by (simp add: resolveValue_interface [OF nn np])
      qed (use run in \<open>auto simp: resolveValue_basic [OF nn np] split: if_splits\<close>)
    qed
  qed
qed

text \<open>
  The pointer case where it works: an input that is not a pointer fails with the
  shape error, a nil pointer gives the nil pointer of the expected type, and a pointer to
  a pointee that resolves to \<open>r\<close> gives a pointer to a fresh cell that holds \<open>r\<close>,
  provided \<open>Set\<close> accepts \<open>r\<close>.
\<close>

lemma pointer_resolution:
  assumes "input \<noteq> VNil" and "\<not> isPromise input"
  shows "(KindOf input \<noteq> KPtr \<longrightarrow>
            resolveValue cv (Suc n) h input (TPtr t)
              = Done (Inl (ExpectedPointer (TPtr t) (TypeOf input))))
       \<and> (input = VPtr t' None \<longrightarrow>
            resolveValue cv (Suc n) h input (TPtr t) = Done (Inr (VPtr t None, h)))
       \<and> (input = VPtr t' (Some a) \<longrightarrow> deref h a = Some pointee \<longrightarrow>
            resolveValue cv n h pointee t = Done (Inr (r, h1)) \<longrightarrow> Set_panics t r = None \<longrightarrow>
              resolveValue cv (Suc n) h input (TPtr t)
                = Done (Inr (VPtr t (Some (length h1)), h1 @ [r]))
              \<and> length h \<le> length h1
              \<and> deref (h1 @ [r]) (length h1) = Some r)"
proof (intro conjI impI)
  note unfold = resolveValue_ptr [OF assms]
  show "KindOf input \<noteq> KPtr \<Longrightarrow>
      resolveValue cv (Suc n) h input (TPtr t)
        = Done (Inl (ExpectedPointer (TPtr t) (TypeOf input)))"
    by (simp add: unfold)
  show "resolveValue cv (Suc n) h input (TPtr t) = Done (Inr (VPtr t None, h))"
    if "input = VPtr t' None"
    unfolding unfold by (simp add: that KindOf_def)
  assume i: "input = VPtr t' (Some a)" and d: "deref h a = Some pointee"
    and r: "resolveValue cv n h pointee t = Done (Inr (r, h1))" and s: "Set_panics t r = None"
  show "resolveValue cv (Suc n) h input (TPtr t)
      = Done (Inr (VPtr t (Some (length h1)), h1 @ [r]))"
    unfolding unfold by (simp add: i d r s KindOf_def)
  from resolveValue_extends [OF r] show "length h \<le> length h1" by auto
  show "deref (h1 @ [r]) (length h1) = Some r" by (simp add: deref_def)
qed

text \<open>
  Claim C6 fails on the code where the pointee resolves to the nil interface. The input
  is \<open>&x\<close> for \<open>var x interface{}\<close>, the expected type \<open>*interface{}\<close>: the pointee
  resolves to nil, \<open>reflect.ValueOf(nil)\<close> is the zero \<open>Value\<close>, and \<open>Set\<close> panics
  instead of storing it in the new cell.
\<close>

theorem pointer_to_nil_interface:
  "resolveValue cv (Suc (Suc n)) [VNil] (VPtr TInterface (Some 0)) (TPtr TInterface)
     = Panic ReflectZeroValue"
  by (simp add: resolveValue.simps KindOf_def deref_def Set_panics_def)

text \<open>
  The element loop where it works: a result has the length of the input, and the element
  at each index is what the element of the input at that index resolved to.
\<close>

lemma sequence_resolution:
  "resolveElems rv wrap et h xs i = Done (Inr (rs, h')) \<Longrightarrow>
   length rs = length xs
   \<and> (\<forall>j < length xs. \<exists>hj hj'. rv hj (xs ! j) = Done (Inr (rs ! j, hj'))
          \<and> Set_panics et (rs ! j) = None)"
proof (induction xs arbitrary: h i rs)
  case Nil
  then show ?case by simp
next
  case (Cons x xs)
  from Cons.prems obtain r h1 rs' where
    r: "rv h x = Done (Inr (r, h1))" and s: "Set_panics et r = None"
    and rest: "resolveElems rv wrap et h1 xs (Suc i) = Done (Inr (rs', h'))"
    and rs: "rs = r # rs'"
    by (auto split: outcome.splits sum.splits prod.splits option.splits)
  note ih = Cons.IH [OF rest]
  show ?case
  proof (intro conjI allI impI)
    show "length rs = length (x # xs)" using ih rs by simp
    fix j assume "j < length (x # xs)"
    then show "\<exists>hj hj'. rv hj ((x # xs) ! j) = Done (Inr (rs ! j, hj'))
        \<and> Set_panics et (rs ! j) = None"
      using ih r s rs by (cases j) auto
  qed
qed

text \<open>
  \<open>[P(1), P(2), P(3)]\<close> against \<open>[]int\<close> and \<open>{"a": P(1), "b": P(2)}\<close> against
  \<open>map[string]int\<close>.
\<close>

lemma container_examples:
  "resolveValue cv (Suc (Suc (Suc n)))
     [ready_promise TInt (VInt 1), ready_promise TInt (VInt 2), ready_promise TInt (VInt 3)]
     (VSlice (TPtr (TPromise TInt))
        (Some [VPtr (TPromise TInt) (Some 0), VPtr (TPromise TInt) (Some 1),
               VPtr (TPromise TInt) (Some 2)]))
     (TSlice TInt)
   = Done (Inr (VSlice TInt (Some [VInt 1, VInt 2, VInt 3]),
       [ready_promise TInt (VInt 1), ready_promise TInt (VInt 2), ready_promise TInt (VInt 3)]))"
  "resolveValue cv (Suc (Suc (Suc n)))
     [ready_promise TInt (VInt 1), ready_promise TInt (VInt 2)]
     (VMap TString (TPtr (TPromise TInt))
        (Some [(VString ''a'', VPtr (TPromise TInt) (Some 0)),
               (VString ''b'', VPtr (TPromise TInt) (Some 1))]))
     (TMap TString TInt)
   = Done (Inr (VMap TString TInt (Some [(VString ''a'', VInt 1), (VString ''b'', VInt 2)]),
       [ready_promise TInt (VInt 1), ready_promise TInt (VInt 2)]))"
  by (simp_all add: resolveValue.simps KindOf_def deref_def ready_promise_def Get_def
      Set_panics_def SetMapIndex_def AssignableTo_def)

text \<open>
  Claim C2 fails on the code where a value resolves to the nil interface. The map
  \<open>map[string]interface{}{"a": nil, "b": 1}\<close> against \<open>map[string]interface{}\<close> comes
  back without the key \<open>"a"\<close>: \<open>SetMapIndex\<close> with the zero \<open>Value\<close> deletes. The
  slice \<open>[]interface{}{nil}\<close> against \<open>[]interface{}\<close> gives no slice: \<open>Set\<close> panics.
\<close>

theorem nil_values_lost:
  "resolveValue cv (Suc (Suc n)) h
     (VMap TString TInterface (Some [(VString ''a'', VNil), (VString ''b'', VInt 1)]))
     (TMap TString TInterface)
   = Done (Inr (VMap TString TInterface (Some [(VString ''b'', VInt 1)]), h))
   \<and> resolveValue cv (Suc (Suc n)) h (VSlice TInterface (Some [VNil])) (TSlice TInterface)
   = Panic ReflectZeroValue"
  by (simp add: resolveValue.simps KindOf_def Set_panics_def SetMapIndex_def AssignableTo_def)

section \<open>The mode flag\<close>

text \<open>\<open>shallowResolve\<close> does to an argument what the specification says.\<close>

lemma shallow_spec_sound:
  "shallow_spec h t arg w \<Longrightarrow> shallowResolve h arg t = Done (Inr (w, h))"
  by (induction h t arg w rule: shallow_spec.induct)
     (auto simp: shallowResolve_def split: option.splits gval.splits)

lemma resolveArgs_shallow_spec:
  "length ts = length args \<Longrightarrow> length ws = length args \<Longrightarrow> length vs = length args \<Longrightarrow>
   (\<forall>j < length args. shallow_spec h (ts ! j) (args ! j) (ws ! j)
        \<and> resolvedArg cv (i + j) (ws ! j) (ts ! j) = Inr (vs ! j)) \<Longrightarrow>
   resolveArgs cv n False h ts args i = Done (vs, h)"
proof (induction args arbitrary: ts ws vs i)
  case Nil
  then show ?case by simp
next
  case (Cons arg args)
  from Cons.prems(1) obtain t ts' where ts: "ts = t # ts'" by (cases ts) simp_all
  from Cons.prems(2) obtain w ws' where ws: "ws = w # ws'" by (cases ws) simp_all
  from Cons.prems(3) obtain v vs' where vs: "vs = v # vs'" by (cases vs) simp_all
  from Cons.prems(4) have "shallow_spec h (ts ! 0) ((arg # args) ! 0) (ws ! 0)
      \<and> resolvedArg cv (i + 0) (ws ! 0) (ts ! 0) = Inr (vs ! 0)" by blast
  with ts ws vs have s0: "shallow_spec h t arg w" and r0: "resolvedArg cv i w t = Inr v"
    by simp_all
  have rest: "\<forall>j < length args. shallow_spec h (ts' ! j) (args ! j) (ws' ! j)
        \<and> resolvedArg cv (Suc i + j) (ws' ! j) (ts' ! j) = Inr (vs' ! j)"
  proof (intro allI impI)
    fix j assume "j < length args"
    then have "Suc j < length (arg # args)" by simp
    with Cons.prems(4) have "shallow_spec h (ts ! Suc j) ((arg # args) ! Suc j) (ws ! Suc j)
        \<and> resolvedArg cv (i + Suc j) (ws ! Suc j) (ts ! Suc j) = Inr (vs ! Suc j)" by blast
    with ts ws vs show "shallow_spec h (ts' ! j) (args ! j) (ws' ! j)
        \<and> resolvedArg cv (Suc i + j) (ws' ! j) (ts' ! j) = Inr (vs' ! j)" by simp
  qed
  from Cons.prems ts ws vs have l1: "length ts' = length args" and l2: "length ws' = length args"
    and l3: "length vs' = length args" by simp_all
  from Cons.IH [OF l1 l2 l3 rest]
  have "resolveArgs cv n False h ts' args (Suc i) = Done (vs', h)" .
  with shallow_spec_sound [OF s0] r0 ts vs show ?case by simp
qed

lemma resolveArgs_recursive:
  "resolveArgs cv n True h ts args i = Done (vs, h') \<Longrightarrow> length ts = length args \<Longrightarrow>
   length vs = length args
   \<and> (\<forall>j < length args. \<exists>hj r hj'. resolveValue cv n hj (args ! j) (ts ! j) = Done (Inr (r, hj'))
          \<and> resolvedArg cv (i + j) r (ts ! j) = Inr (vs ! j))"
proof (induction args arbitrary: ts i vs h)
  case Nil
  then show ?case by (cases ts) simp_all
next
  case (Cons arg args)
  from Cons.prems(2) obtain t ts' where ts: "ts = t # ts'" by (cases ts) simp_all
  note run = Cons.prems(1) [unfolded ts]
  from run obtain r hr where r: "resolveValue cv n h arg t = Done (Inr (r, hr))"
    by (auto split: outcome.splits sum.splits prod.splits)
  from run r obtain v where v: "resolvedArg cv i r t = Inr v"
    by (auto split: outcome.splits sum.splits prod.splits)
  from run r v obtain vs' where
    rest: "resolveArgs cv n True hr ts' args (Suc i) = Done (vs', h')" and vs: "vs = v # vs'"
    by (auto split: outcome.splits sum.splits prod.splits)
  from Cons.prems(2) ts have len: "length ts' = length args" by simp
  note ih = Cons.IH [OF rest len]
  show ?case
  proof (intro conjI allI impI)
    show "length vs = length (arg # args)" using ih vs by simp
    fix j assume j: "j < length (arg # args)"
    show "\<exists>hj r hj'. resolveValue cv n hj ((arg # args) ! j) (ts ! j) = Done (Inr (r, hj'))
          \<and> resolvedArg cv (i + j) r (ts ! j) = Inr (vs ! j)"
    proof (cases j)
      case 0
      with r v vs ts show ?thesis by auto
    next
      case (Suc k)
      with j have "k < length args" by simp
      with ih obtain hj r' hj' where
        "resolveValue cv n hj (args ! k) (ts' ! k) = Done (Inr (r', hj'))"
        and "resolvedArg cv (Suc i + k) r' (ts' ! k) = Inr (vs' ! k)" by blast
      with Suc vs ts show ?thesis by auto
    qed
  qed
qed

text \<open>The four ways the head of \<open>Sync\<close> and \<open>Async\<close> goes, by the arguments alone.\<close>

lemma Sync_modes:
  "Sync cv n T h (Func fv) xs =
     (if length xs = NumIn fv then executeFunction cv n T h (Func fv) False xs
      else if length xs = NumIn fv + 1 \<and> last xs = VBool False then
        executeFunction cv n T h (Func fv) False (butlast xs)
      else if length xs = NumIn fv + 1 \<and> last xs = VBool True then
        executeFunction cv n T h (Func fv) True (butlast xs)
      else Panic (ArgumentCount AtSync (NumIn fv) (length xs)))"
  by (auto simp: Sync_def stripFlag_def Let_def split: gval.splits)

lemma Async_modes:
  "Async T h (Func fv) xs =
     (if length xs = NumIn fv then
        Inr (VPtr (TPromise T) (Some (length h)), h @ [VPromise T (NewPending (Zero T))],
             \<lparr>g_f = Func fv, g_recursive = False, g_args = xs, g_p = length h\<rparr>)
      else if length xs = NumIn fv + 1 \<and> last xs = VBool False then
        Inr (VPtr (TPromise T) (Some (length h)), h @ [VPromise T (NewPending (Zero T))],
             \<lparr>g_f = Func fv, g_recursive = False, g_args = butlast xs, g_p = length h\<rparr>)
      else if length xs = NumIn fv + 1 \<and> last xs = VBool True then
        Inr (VPtr (TPromise T) (Some (length h)), h @ [VPromise T (NewPending (Zero T))],
             \<lparr>g_f = Func fv, g_recursive = True, g_args = butlast xs, g_p = length h\<rparr>)
      else Inl (ArgumentCount AtAsync (NumIn fv) (length xs)))"
  by (auto simp: Async_def stripFlag_def Let_def alloc_def split: gval.splits)

lemma executeFunction_returns:
  "NumOut fv = 1 \<Longrightarrow> NumIn fv = length args \<Longrightarrow>
   resolveArgs cv n recursive h (In fv) args 0 = Done (vs, h1) \<Longrightarrow>
   Call fv h1 vs = (Returns [res], cells) \<Longrightarrow> type_assert res T \<Longrightarrow>
   executeFunction cv n T h (Func fv) recursive args = Done (res, h1 @ cells)"
  by (simp add: executeFunction_def)

lemma run_goroutine_returns:
  assumes ex: "executeFunction cv n T h (g_f g) (g_recursive g) (g_args g) = Done (res, h2)"
    and cell: "deref h2 (g_p g) = Some (VPromise U pr)"
    and pend: "ready pr = ChOpen" "\<not> once pr"
  shows "run_goroutine cv n T h g
           = (Returned, h2[g_p g := VPromise U (Promise res ChClosed True)], [])"
    and "get (h2[g_p g := VPromise U (Promise res ChClosed True)]) (VPtr (TPromise U) (Some (g_p g)))
           = Done res"
proof -
  from cell have lt: "g_p g < length h2" by (simp add: deref_def split: if_splits)
  from cell pend show "run_goroutine cv n T h g
           = (Returned, h2[g_p g := VPromise U (Promise res ChClosed True)], [])"
    by (simp add: run_goroutine_def ex resolve_def Resolve_pending)
  from lt show "get (h2[g_p g := VPromise U (Promise res ChClosed True)])
      (VPtr (TPromise U) (Some (g_p g))) = Done res"
    by (simp add: deref_def Get_def)
qed

text \<open>
  Claim C10, as the code has it. The mode depends on the arguments alone. With as many
  arguments as parameters, and with one more that is a trailing \<open>false\<close>, \<open>Sync\<close>
  runs \<open>executeFunction\<close> in shallow mode and \<open>Async\<close> starts its goroutine in
  shallow mode; with one more that is a trailing \<open>true\<close> they run in recursive mode;
  in every other case, one extra argument that is not a boolean included, the call panics
  with the argument count and resolves nothing. What shallow mode does: when each
  argument \<open>args ! j\<close> has the value \<open>ws ! j\<close> that the specification gives it (the
  zero value for nil, the payload for a ready promise, itself otherwise, so that promises
  inside it stay), the worker is called on these values (after \<open>resolvedArg\<close>) on the
  unchanged heap; \<open>Sync\<close> returns the worker's result, with or without a trailing
  \<open>false\<close>, and the goroutine of \<open>Async\<close> resolves the pending promise with that
  result. In recursive mode each argument of the worker is an outcome of
  \<open>resolveValue\<close>.
\<close>

theorem shallow_by_default:
  "Sync cv n T h (Func fv) xs =
     (if length xs = NumIn fv then executeFunction cv n T h (Func fv) False xs
      else if length xs = NumIn fv + 1 \<and> last xs = VBool False then
        executeFunction cv n T h (Func fv) False (butlast xs)
      else if length xs = NumIn fv + 1 \<and> last xs = VBool True then
        executeFunction cv n T h (Func fv) True (butlast xs)
      else Panic (ArgumentCount AtSync (NumIn fv) (length xs)))
   \<and> Async T h0 (Func fv) xs =
     (if length xs = NumIn fv then
        Inr (VPtr (TPromise T) (Some (length h0)), h0 @ [VPromise T (NewPending (Zero T))],
             \<lparr>g_f = Func fv, g_recursive = False, g_args = xs, g_p = length h0\<rparr>)
      else if length xs = NumIn fv + 1 \<and> last xs = VBool False then
        Inr (VPtr (TPromise T) (Some (length h0)), h0 @ [VPromise T (NewPending (Zero T))],
             \<lparr>g_f = Func fv, g_recursive = False, g_args = butlast xs, g_p = length h0\<rparr>)
      else if length xs = NumIn fv + 1 \<and> last xs = VBool True then
        Inr (VPtr (TPromise T) (Some (length h0)), h0 @ [VPromise T (NewPending (Zero T))],
             \<lparr>g_f = Func fv, g_recursive = True, g_args = butlast xs, g_p = length h0\<rparr>)
      else Inl (ArgumentCount AtAsync (NumIn fv) (length xs)))
   \<and> (length args = NumIn fv \<longrightarrow> NumOut fv = 1 \<longrightarrow>
        length ws = length args \<longrightarrow> length vs = length args \<longrightarrow>
        (\<forall>j < length args. shallow_spec h (In fv ! j) (args ! j) (ws ! j)
             \<and> resolvedArg cv j (ws ! j) (In fv ! j) = Inr (vs ! j)) \<longrightarrow>
        Call fv h vs = (Returns [res], cells) \<longrightarrow> type_assert res T \<longrightarrow>
          Sync cv n T h (Func fv) args = Done (res, h @ cells)
          \<and> Sync cv n T h (Func fv) (args @ [VBool False]) = Done (res, h @ cells)
          \<and> Async T h0 (Func fv) (args @ [VBool False]) = Async T h0 (Func fv) args
          \<and> (Async T h0 (Func fv) args = Inr (ptr, h1, g) \<longrightarrow>
               deref h (g_p g) = Some (VPromise T pr) \<longrightarrow> ready pr = ChOpen \<longrightarrow> \<not> once pr \<longrightarrow>
                 run_goroutine cv n T h g
                   = (Returned, (h @ cells)[g_p g := VPromise T (Promise res ChClosed True)], [])
                 \<and> get ((h @ cells)[g_p g := VPromise T (Promise res ChClosed True)]) ptr
                   = Done res))
   \<and> (resolveArgs cv n True h ts ys i = Done (us, h') \<longrightarrow> length ts = length ys \<longrightarrow>
        length us = length ys
        \<and> (\<forall>j < length ys. \<exists>hj r hj'.
               resolveValue cv n hj (ys ! j) (ts ! j) = Done (Inr (r, hj'))
               \<and> resolvedArg cv (i + j) r (ts ! j) = Inr (us ! j)))"
proof (intro conjI impI)
  show "Sync cv n T h (Func fv) xs =
     (if length xs = NumIn fv then executeFunction cv n T h (Func fv) False xs
      else if length xs = NumIn fv + 1 \<and> last xs = VBool False then
        executeFunction cv n T h (Func fv) False (butlast xs)
      else if length xs = NumIn fv + 1 \<and> last xs = VBool True then
        executeFunction cv n T h (Func fv) True (butlast xs)
      else Panic (ArgumentCount AtSync (NumIn fv) (length xs)))"
    by (rule Sync_modes)
  show "Async T h0 (Func fv) xs =
     (if length xs = NumIn fv then
        Inr (VPtr (TPromise T) (Some (length h0)), h0 @ [VPromise T (NewPending (Zero T))],
             \<lparr>g_f = Func fv, g_recursive = False, g_args = xs, g_p = length h0\<rparr>)
      else if length xs = NumIn fv + 1 \<and> last xs = VBool False then
        Inr (VPtr (TPromise T) (Some (length h0)), h0 @ [VPromise T (NewPending (Zero T))],
             \<lparr>g_f = Func fv, g_recursive = False, g_args = butlast xs, g_p = length h0\<rparr>)
      else if length xs = NumIn fv + 1 \<and> last xs = VBool True then
        Inr (VPtr (TPromise T) (Some (length h0)), h0 @ [VPromise T (NewPending (Zero T))],
             \<lparr>g_f = Func fv, g_recursive = True, g_args = butlast xs, g_p = length h0\<rparr>)
      else Inl (ArgumentCount AtAsync (NumIn fv) (length xs)))"
    by (rule Async_modes)
next
  assume len: "length args = NumIn fv" and out: "NumOut fv = 1"
    and lw: "length ws = length args" and lv: "length vs = length args"
    and each: "\<forall>j < length args. shallow_spec h (In fv ! j) (args ! j) (ws ! j)
             \<and> resolvedArg cv j (ws ! j) (In fv ! j) = Inr (vs ! j)"
    and call: "Call fv h vs = (Returns [res], cells)" and ty: "type_assert res T"
  from len have lt: "length (In fv) = length args" by (simp add: NumIn_def)
  from each have each0: "\<forall>j < length args. shallow_spec h (In fv ! j) (args ! j) (ws ! j)
             \<and> resolvedArg cv (0 + j) (ws ! j) (In fv ! j) = Inr (vs ! j)" by simp
  have ra: "resolveArgs cv n False h (In fv) args 0 = Done (vs, h)"
    by (rule resolveArgs_shallow_spec [OF lt lw lv each0])
  have ex: "executeFunction cv n T h (Func fv) False args = Done (res, h @ cells)"
    by (rule executeFunction_returns [OF out len [symmetric] ra call ty])
  show "Sync cv n T h (Func fv) args = Done (res, h @ cells)"
    by (simp add: Sync_modes len ex)
  show "Sync cv n T h (Func fv) (args @ [VBool False]) = Done (res, h @ cells)"
    by (simp add: Sync_modes len ex)
  show "Async T h0 (Func fv) (args @ [VBool False]) = Async T h0 (Func fv) args"
    by (simp add: Async_modes len)
  assume spawn: "Async T h0 (Func fv) args = Inr (ptr, h1, g)"
    and cell: "deref h (g_p g) = Some (VPromise T pr)"
    and pend: "ready pr = ChOpen" "\<not> once pr"
  from spawn len have g: "g = \<lparr>g_f = Func fv, g_recursive = False, g_args = args, g_p = length h0\<rparr>"
    and ptr: "ptr = VPtr (TPromise T) (Some (length h0))"
    by (simp_all add: Async_modes)
  from g have gp: "g_p g = length h0" by simp
  from g ex have ex': "executeFunction cv n T h (g_f g) (g_recursive g) (g_args g)
      = Done (res, h @ cells)" by simp
  from cell have cell': "deref (h @ cells) (g_p g) = Some (VPromise T pr)"
    by (simp add: deref_def nth_append split: if_splits)
  from run_goroutine_returns(1) [OF ex' cell' pend]
  show "run_goroutine cv n T h g
      = (Returned, (h @ cells)[g_p g := VPromise T (Promise res ChClosed True)], [])" .
  from run_goroutine_returns(2) [OF ex' cell' pend] ptr gp
  show "get ((h @ cells)[g_p g := VPromise T (Promise res ChClosed True)]) ptr = Done res"
    by simp
next
  assume run: "resolveArgs cv n True h ts ys i = Done (us, h')" and len: "length ts = length ys"
  note all = resolveArgs_recursive [OF run len]
  from all show "length us = length ys" by simp
  from all show "\<forall>j < length ys. \<exists>hj r hj'.
               resolveValue cv n hj (ys ! j) (ts ! j) = Done (Inr (r, hj'))
               \<and> resolvedArg cv (i + j) r (ts ! j) = Inr (us ! j)" by simp
qed
text \<open>
  C10 on \<open>First\<close> and the argument \<open>P([]interface{}{P(1)})\<close>: without a flag and with a
  trailing \<open>false\<close> the worker sees the payload of the outer promise and returns the
  inner promise, unresolved, and the goroutine of \<open>Async\<close> resolves its promise with
  it; with a trailing \<open>true\<close> the worker returns 1.
\<close>

theorem shallow_by_default_witness:
  "length [(VPtr (TPromise (TSlice TInterface)) (Some 1))] = NumIn First \<and> NumOut First = 1
   \<and> shallow_spec [ready_promise TInt (VInt 1), ready_promise (TSlice TInterface) (VSlice TInterface (Some [VPtr (TPromise TInt) (Some 0)])),
      VPromise TInterface (Promise VNil ChOpen False)] (In First ! 0) (VPtr (TPromise (TSlice TInterface)) (Some 1)) (VSlice TInterface (Some [VPtr (TPromise TInt) (Some 0)]))
   \<and> resolvedArg identity_conv 0 (VSlice TInterface (Some [VPtr (TPromise TInt) (Some 0)])) (In First ! 0) = Inr (VSlice TInterface (Some [VPtr (TPromise TInt) (Some 0)]))
   \<and> Call First [ready_promise TInt (VInt 1), ready_promise (TSlice TInterface) (VSlice TInterface (Some [VPtr (TPromise TInt) (Some 0)])),
      VPromise TInterface (Promise VNil ChOpen False)] [(VSlice TInterface (Some [VPtr (TPromise TInt) (Some 0)]))] = (Returns [(VPtr (TPromise TInt) (Some 0))], [])
   \<and> type_assert (VPtr (TPromise TInt) (Some 0)) TInterface
   \<and> Sync identity_conv 4 TInterface [ready_promise TInt (VInt 1), ready_promise (TSlice TInterface) (VSlice TInterface (Some [VPtr (TPromise TInt) (Some 0)])),
      VPromise TInterface (Promise VNil ChOpen False)] (Func First) [(VPtr (TPromise (TSlice TInterface)) (Some 1))]
       = Done ((VPtr (TPromise TInt) (Some 0)), [ready_promise TInt (VInt 1), ready_promise (TSlice TInterface) (VSlice TInterface (Some [VPtr (TPromise TInt) (Some 0)])),
      VPromise TInterface (Promise VNil ChOpen False)])
   \<and> Sync identity_conv 4 TInterface [ready_promise TInt (VInt 1), ready_promise (TSlice TInterface) (VSlice TInterface (Some [VPtr (TPromise TInt) (Some 0)])),
      VPromise TInterface (Promise VNil ChOpen False)] (Func First) [(VPtr (TPromise (TSlice TInterface)) (Some 1)), VBool False]
       = Done ((VPtr (TPromise TInt) (Some 0)), [ready_promise TInt (VInt 1), ready_promise (TSlice TInterface) (VSlice TInterface (Some [VPtr (TPromise TInt) (Some 0)])),
      VPromise TInterface (Promise VNil ChOpen False)])
   \<and> Sync identity_conv 4 TInterface [ready_promise TInt (VInt 1), ready_promise (TSlice TInterface) (VSlice TInterface (Some [VPtr (TPromise TInt) (Some 0)])),
      VPromise TInterface (Promise VNil ChOpen False)] (Func First) [(VPtr (TPromise (TSlice TInterface)) (Some 1)), VBool True]
       = Done (VInt 1, [ready_promise TInt (VInt 1), ready_promise (TSlice TInterface) (VSlice TInterface (Some [VPtr (TPromise TInt) (Some 0)])),
      VPromise TInterface (Promise VNil ChOpen False)])
   \<and> Async TInterface [ready_promise TInt (VInt 1), ready_promise (TSlice TInterface) (VSlice TInterface (Some [VPtr (TPromise TInt) (Some 0)]))] (Func First) [(VPtr (TPromise (TSlice TInterface)) (Some 1))]
       = Inr ((VPtr (TPromise TInterface) (Some 2)), [ready_promise TInt (VInt 1), ready_promise (TSlice TInterface) (VSlice TInterface (Some [VPtr (TPromise TInt) (Some 0)])),
      VPromise TInterface (Promise VNil ChOpen False)],
           \<lparr>g_f = Func First, g_recursive = False, g_args = [(VPtr (TPromise (TSlice TInterface)) (Some 1))], g_p = 2\<rparr>)
   \<and> deref [ready_promise TInt (VInt 1), ready_promise (TSlice TInterface) (VSlice TInterface (Some [VPtr (TPromise TInt) (Some 0)])),
      VPromise TInterface (Promise VNil ChOpen False)] 2 = Some (VPromise TInterface (Promise VNil ChOpen False))
   \<and> run_goroutine identity_conv 4 TInterface [ready_promise TInt (VInt 1), ready_promise (TSlice TInterface) (VSlice TInterface (Some [VPtr (TPromise TInt) (Some 0)])),
      VPromise TInterface (Promise VNil ChOpen False)]
        \<lparr>g_f = Func First, g_recursive = False, g_args = [(VPtr (TPromise (TSlice TInterface)) (Some 1))], g_p = 2\<rparr>
       = (Returned, [ready_promise TInt (VInt 1), ready_promise (TSlice TInterface) (VSlice TInterface (Some [VPtr (TPromise TInt) (Some 0)])),
      VPromise TInterface (Promise (VPtr (TPromise TInt) (Some 0)) ChClosed True)], [])
   \<and> get [ready_promise TInt (VInt 1), ready_promise (TSlice TInterface) (VSlice TInterface (Some [VPtr (TPromise TInt) (Some 0)])),
      VPromise TInterface (Promise (VPtr (TPromise TInt) (Some 0)) ChClosed True)] (VPtr (TPromise TInterface) (Some 2)) = Done (VPtr (TPromise TInt) (Some 0))
   \<and> resolveArgs identity_conv 4 True [ready_promise TInt (VInt 1), ready_promise (TSlice TInterface) (VSlice TInterface (Some [VPtr (TPromise TInt) (Some 0)])),
      VPromise TInterface (Promise VNil ChOpen False)] [TSlice TInterface] [(VPtr (TPromise (TSlice TInterface)) (Some 1))] 0
       = Done ([VSlice TInterface (Some [VInt 1])], [ready_promise TInt (VInt 1), ready_promise (TSlice TInterface) (VSlice TInterface (Some [VPtr (TPromise TInt) (Some 0)])),
      VPromise TInterface (Promise VNil ChOpen False)])
   \<and> length [VSlice TInterface (Some [VInt 1])] = length [(VPtr (TPromise (TSlice TInterface)) (Some 1))]"
proof -
  let ?s = "(VSlice TInterface (Some [VPtr (TPromise TInt) (Some 0)]))"
  let ?a = "(VPtr (TPromise (TSlice TInterface)) (Some 1))"
  let ?start = "[ready_promise TInt (VInt 1), ready_promise (TSlice TInterface) (VSlice TInterface (Some [VPtr (TPromise TInt) (Some 0)]))]"
  let ?h = "[ready_promise TInt (VInt 1), ready_promise (TSlice TInterface) (VSlice TInterface (Some [VPtr (TPromise TInt) (Some 0)])),
      VPromise TInterface (Promise VNil ChOpen False)]"
  let ?final = "[ready_promise TInt (VInt 1), ready_promise (TSlice TInterface) (VSlice TInterface (Some [VPtr (TPromise TInt) (Some 0)])),
      VPromise TInterface (Promise (VPtr (TPromise TInt) (Some 0)) ChClosed True)]"
  let ?res = "(VPtr (TPromise TInt) (Some 0))"
  let ?g = "\<lparr>g_f = Func First, g_recursive = False, g_args = [(VPtr (TPromise (TSlice TInterface)) (Some 1))], g_p = 2\<rparr>"
  let ?ptr = "(VPtr (TPromise TInterface) (Some 2))"
  let ?pr = "Promise VNil ChOpen False :: gval Promise"
  note t = shallow_by_default [where cv = identity_conv and n = 4 and T = TInterface and h = ?h
      and fv = First and xs = "[?a, VBool True]" and ?h0.0 = ?start and args = "[?a]"
      and ws = "[?s]" and vs = "[?s]" and res = ?res and cells = "[]" and ptr = ?ptr
      and ?h1.0 = ?h and g = ?g and pr = ?pr and ts = "[TSlice TInterface]" and ys = "[?a]"
      and i = 0 and us = "[VSlice TInterface (Some [VInt 1])]" and h' = ?h]
  have len: "length [?a] = NumIn First" and out: "NumOut First = 1"
    by (simp_all add: NumIn_def First_def)
  have sp: "shallow_spec ?h (In First ! 0) ?a ?s"
    by (simp add: First_def deref_def ready_promise_def Get_def)
  have rs: "resolvedArg identity_conv 0 ?s (In First ! 0) = Inr ?s"
    by (simp add: First_def resolvedArg_def AssignableTo_def)
  from sp rs have each: "\<forall>j < length [?a]. shallow_spec ?h (In First ! j) ([?a] ! j) ([?s] ! j)
      \<and> resolvedArg identity_conv j ([?s] ! j) (In First ! j) = Inr ([?s] ! j)"
    by simp
  have call: "Call First ?h [?s] = (Returns [?res], [])"
    by (simp add: First_def)
  have ty: "type_assert ?res TInterface"
    by (simp add: type_assert_def)
  have spawn: "Async TInterface ?start (Func First) [?a] = Inr (?ptr, ?h, ?g)"
    by (simp add: Async_modes NumIn_def First_def NewPending_def)
  have cell: "deref ?h 2 = Some (VPromise TInterface ?pr)"
    by (simp add: deref_def)
  have pend: "ready ?pr = ChOpen" "\<not> once ?pr" by simp_all
  have ra: "resolveArgs identity_conv 4 True ?h [TSlice TInterface] [?a] 0
      = Done ([VSlice TInterface (Some [VInt 1])], ?h)"
    by (simp add: resolveValue.simps eval_nat_numeral KindOf_def deref_def ready_promise_def
        Get_def Set_panics_def AssignableTo_def resolvedArg_def)
  have tr: "executeFunction identity_conv 4 TInterface ?h (Func First) True [?a]
      = Done (VInt 1, ?h)"
    by (simp add: executeFunction_def NumIn_def First_def type_assert_def resolveValue.simps
        eval_nat_numeral KindOf_def deref_def ready_promise_def Get_def Set_panics_def
        AssignableTo_def resolvedArg_def)
  have ni: "NumIn First = Suc 0"
    by (simp add: NumIn_def First_def)
  note t' = t [unfolded ni]
  from t' out each call ty
  have a: "Sync identity_conv 4 TInterface ?h (Func First) [?a] = Done (?res, ?h)"
    and b: "Sync identity_conv 4 TInterface ?h (Func First) ([?a] @ [VBool False])
        = Done (?res, ?h)"
    by simp_all
  from t' tr have c: "Sync identity_conv 4 TInterface ?h (Func First) [?a, VBool True]
      = Done (VInt 1, ?h)"
    by simp
  from t' out each call ty spawn cell pend
  have d: "run_goroutine identity_conv 4 TInterface ?h ?g = (Returned, ?final, [])"
    and e: "get ?final ?ptr = Done ?res"
    by simp_all
  from t' ra have f: "length [VSlice TInterface (Some [VInt 1])] = length [?a]" by simp
  from b have b': "Sync identity_conv 4 TInterface ?h (Func First) [?a, VBool False]
        = Done (?res, ?h)" by simp
  show ?thesis
    using len out sp rs call ty a b' c spawn cell d e ra f by (intro conjI)
qed

text \<open>
  C10 as stated counts an extra last argument that is not a boolean among the calls that
  resolve in shallow mode. \<open>Sync(First, p, 1)\<close> and \<open>Async(First, p, 1)\<close> resolve
  nothing: they panic with "function expects 1 arguments, but got 2", where
  \<open>Sync(First, p)\<close> returns the result of shallow resolution.
\<close>

theorem extra_argument_counterexample:
  "length [(VPtr (TPromise (TSlice TInterface)) (Some 1)), VInt 1] = NumIn First + 1
   \<and> last [(VPtr (TPromise (TSlice TInterface)) (Some 1)), VInt 1] = VInt 1
   \<and> Sync identity_conv 4 TInterface [ready_promise TInt (VInt 1), ready_promise (TSlice TInterface) (VSlice TInterface (Some [VPtr (TPromise TInt) (Some 0)])),
      VPromise TInterface (Promise VNil ChOpen False)] (Func First) [(VPtr (TPromise (TSlice TInterface)) (Some 1)), VInt 1]
       = Panic (ArgumentCount AtSync 1 2)
   \<and> Async TInterface [ready_promise TInt (VInt 1), ready_promise (TSlice TInterface) (VSlice TInterface (Some [VPtr (TPromise TInt) (Some 0)]))] (Func First) [(VPtr (TPromise (TSlice TInterface)) (Some 1)), VInt 1] = Inl (ArgumentCount AtAsync 1 2)
   \<and> Sync identity_conv 4 TInterface [ready_promise TInt (VInt 1), ready_promise (TSlice TInterface) (VSlice TInterface (Some [VPtr (TPromise TInt) (Some 0)])),
      VPromise TInterface (Promise VNil ChOpen False)] (Func First) [(VPtr (TPromise (TSlice TInterface)) (Some 1))]
       = Done ((VPtr (TPromise TInt) (Some 0)), [ready_promise TInt (VInt 1), ready_promise (TSlice TInterface) (VSlice TInterface (Some [VPtr (TPromise TInt) (Some 0)])),
      VPromise TInterface (Promise VNil ChOpen False)])
   \<and> Sync identity_conv 4 TInterface [ready_promise TInt (VInt 1), ready_promise (TSlice TInterface) (VSlice TInterface (Some [VPtr (TPromise TInt) (Some 0)])),
      VPromise TInterface (Promise VNil ChOpen False)] (Func First) [(VPtr (TPromise (TSlice TInterface)) (Some 1)), VInt 1]
       \<noteq> Sync identity_conv 4 TInterface [ready_promise TInt (VInt 1), ready_promise (TSlice TInterface) (VSlice TInterface (Some [VPtr (TPromise TInt) (Some 0)])),
      VPromise TInterface (Promise VNil ChOpen False)] (Func First) [(VPtr (TPromise (TSlice TInterface)) (Some 1))]"
  by (simp add: Sync_def Async_def stripFlag_def NumIn_def First_def executeFunction_def
      shallowResolve_def deref_def ready_promise_def Get_def resolvedArg_def AssignableTo_def
      type_assert_def)

end
